theory Spec2Isabelle
  imports Complex_Main "HOL-Library.Char_ord" "HOL-Library.List_Lexorder"
    "HOL-Library.Multiset" "HOL-Library.Log_Nat"
begin

section \<open>JavaScript values\<close>

subsection \<open>Numbers\<close>

text \<open>
  A JavaScript number is an IEEE 754 binary64 value: finite, with a sign and a magnitude
  (so that both zeros exist), infinite with a sign, or \<^verbatim>\<open>NaN\<close>. The sign is \<open>True\<close> for
  a negative number. The magnitude is the exact value, a rational.
\<close>

datatype number =
    Finite bool rat
  | Infinity bool
  | NaN

definition real_value :: "bool \<Rightarrow> rat \<Rightarrow> rat" where
  "real_value negative m = (if negative then - m else m)"

text \<open>\<open>floor_log2 m\<close> is the exponent \<open>e\<close> with \<open>2\<^sup>e \<le> m < 2\<^sup>e\<^sup>+\<^sup>1\<close>, for a positive \<open>m\<close>.\<close>

definition floor_log2 :: "rat \<Rightarrow> int" where
  "floor_log2 m =
    (if 1 \<le> m then bitlen \<lfloor>m\<rfloor> - 1
     else let l = bitlen \<lfloor>1 / m\<rfloor> - 1 in if m * 2 ^ nat l = 1 then - l else - l - 1)"

definition round_half_even :: "rat \<Rightarrow> int" where
  "round_half_even q =
    (let n = \<lfloor>q\<rfloor>; r = q - of_int n
     in if r < 1 / 2 then n else if 1 / 2 < r then n + 1 else if even n then n else n + 1)"

text \<open>
  The result of an arithmetic operation is its exact result rounded to the nearest double,
  ties to the even significand. A double has 53 significant bits, hence a spacing of
  \<open>2\<^sup>e\<^sup>-\<^sup>5\<^sup>2\<close> between \<open>2\<^sup>e\<close> and \<open>2\<^sup>e\<^sup>+\<^sup>1\<close>; below \<open>2\<^sup>-\<^sup>1\<^sup>0\<^sup>2\<^sup>2\<close> the spacing stays
  \<open>2\<^sup>-\<^sup>1\<^sup>0\<^sup>7\<^sup>4\<close>, and a rounded magnitude of \<open>2\<^sup>1\<^sup>0\<^sup>2\<^sup>4\<close> or more is infinite.
  \<open>round_to_double\<close> rounds a positive magnitude.
\<close>

definition round_to_double :: "bool \<Rightarrow> rat \<Rightarrow> number" where
  "round_to_double negative m =
    (let e = max (floor_log2 m) (- 1022);
         ulp = 2 powi (e - 52);
         r = of_int (round_half_even (m / ulp)) * ulp
     in if 2 ^ 1024 \<le> r then Infinity negative else Finite negative r)"

text \<open>The number that a decimal literal of the source denotes.\<close>

definition number_of :: "rat \<Rightarrow> number" where
  "number_of q = (if q = 0 then Finite False 0 else round_to_double (q < 0) \<bar>q\<bar>)"

subsection \<open>Primitive values\<close>

text \<open>
  A property of a list item holds a primitive value: a number, a string, a boolean or
  \<^verbatim>\<open>null\<close>; reading a property that the item does not have gives \<^verbatim>\<open>undefined\<close>. A string
  is a list of characters with codes below 256, ordered by their codes.
\<close>

datatype primitive =
    Num number
  | Str string
  | Bool bool
  | Null
  | Undef

subsection \<open>Strings as numbers\<close>

text \<open>
  \<^verbatim>\<open>StringToNumber\<close>, the conversion that \<^verbatim>\<open><\<close> applies to a string that meets a value
  of another type. White space and line terminators around the literal are dropped.
\<close>

definition is_white_space :: "char \<Rightarrow> bool" where
  "is_white_space c =
    (c \<in> set [CHR 0x09, CHR 0x0A, CHR 0x0B, CHR 0x0C, CHR 0x0D, CHR 0x20, CHR 0xA0])"

definition trim :: "string \<Rightarrow> string" where
  "trim s = rev (dropWhile is_white_space (rev (dropWhile is_white_space s)))"

text \<open>
  The value of a digit, decimal or hexadecimal, and of a non-empty sequence of digits in
  a radix.
\<close>

definition digit_of_char :: "char \<Rightarrow> int option" where
  "digit_of_char c =
    (if CHR ''0'' \<le> c \<and> c \<le> CHR ''9'' then Some (of_char c - 48)
     else if CHR ''a'' \<le> c \<and> c \<le> CHR ''f'' then Some (of_char c - 87)
     else if CHR ''A'' \<le> c \<and> c \<le> CHR ''F'' then Some (of_char c - 55)
     else None)"

fun parse_digits :: "int \<Rightarrow> int \<Rightarrow> string \<Rightarrow> int option" where
  "parse_digits radix n [] = Some n"
| "parse_digits radix n (c # cs) =
    (case digit_of_char c of
       None \<Rightarrow> None
     | Some d \<Rightarrow> if d < radix then parse_digits radix (radix * n + d) cs else None)"

definition integer_literal :: "int \<Rightarrow> string \<Rightarrow> int option" where
  "integer_literal radix s = (if s = [] then None else parse_digits radix 0 s)"

text \<open>
  The exponent part of a decimal literal: nothing, or \<^verbatim>\<open>e\<close> or \<^verbatim>\<open>E\<close>, an optional sign and
  at least one digit.
\<close>

definition exponent_part :: "string \<Rightarrow> int option" where
  "exponent_part s =
    (case s of
       [] \<Rightarrow> Some 0
     | c # cs \<Rightarrow>
         if c = CHR ''e'' \<or> c = CHR ''E'' then
           (case cs of
              [] \<Rightarrow> None
            | d # ds \<Rightarrow>
                if d = CHR ''+'' then integer_literal 10 ds
                else if d = CHR ''-'' then map_option uminus (integer_literal 10 ds)
                else integer_literal 10 cs)
         else None)"

text \<open>
  An unsigned decimal literal: digits, then optionally a point and digits, then the
  exponent part; there must be a digit before or after the point. Its value is exact.
\<close>

definition is_decimal_digit :: "char \<Rightarrow> bool" where
  "is_decimal_digit c = (CHR ''0'' \<le> c \<and> c \<le> CHR ''9'')"

definition unsigned_decimal :: "string \<Rightarrow> rat option" where
  "unsigned_decimal s =
    (let whole = takeWhile is_decimal_digit s;
         rest = dropWhile is_decimal_digit s;
         after_point = (case rest of [] \<Rightarrow> None | c # cs \<Rightarrow> if c = CHR ''.'' then Some cs else None);
         fraction = (case after_point of None \<Rightarrow> [] | Some cs \<Rightarrow> takeWhile is_decimal_digit cs);
         tail = (case after_point of None \<Rightarrow> rest | Some cs \<Rightarrow> dropWhile is_decimal_digit cs)
     in if whole = [] \<and> fraction = [] then None
        else
          (case parse_digits 10 0 (whole @ fraction) of
             None \<Rightarrow> None
           | Some n \<Rightarrow>
               (case exponent_part tail of
                  None \<Rightarrow> None
                | Some e \<Rightarrow> Some (of_int n * 10 powi (e - int (length fraction))))))"

text \<open>
  A decimal literal has an optional sign and is \<^verbatim>\<open>Infinity\<close> or an unsigned decimal
  literal, whose value is rounded to the nearest double; a value of zero keeps the sign.
\<close>

definition decimal_literal :: "string \<Rightarrow> number" where
  "decimal_literal s =
    (let signed = (case s of [] \<Rightarrow> False | c # cs \<Rightarrow> c = CHR ''+'' \<or> c = CHR ''-'');
         negative = (case s of [] \<Rightarrow> False | c # cs \<Rightarrow> c = CHR ''-'');
         unsigned = (if signed then tl s else s)
     in if unsigned = ''Infinity'' then Infinity negative
        else
          (case unsigned_decimal unsigned of
             None \<Rightarrow> NaN
           | Some q \<Rightarrow> if q = 0 then Finite negative 0 else round_to_double negative q))"

text \<open>
  A literal that starts with \<^verbatim>\<open>0x\<close>, \<^verbatim>\<open>0o\<close> or \<^verbatim>\<open>0b\<close>, in either case, is an integer in
  radix 16, 8 or 2, and has no sign.
\<close>

definition radix_of :: "string \<Rightarrow> int option" where
  "radix_of s =
    (case s of
       c # x # ds \<Rightarrow>
         if c \<noteq> CHR ''0'' then None
         else if x = CHR ''x'' \<or> x = CHR ''X'' then Some 16
         else if x = CHR ''o'' \<or> x = CHR ''O'' then Some 8
         else if x = CHR ''b'' \<or> x = CHR ''B'' then Some 2
         else None
     | _ \<Rightarrow> None)"

text \<open>The empty string, or white space alone, is \<open>+0\<close>; what is no literal is \<^verbatim>\<open>NaN\<close>.\<close>

definition string_to_number :: "string \<Rightarrow> number" where
  "string_to_number s =
    (let literal = trim s
     in if literal = [] then Finite False 0
        else
          (case radix_of literal of
             None \<Rightarrow> decimal_literal literal
           | Some radix \<Rightarrow>
               (case integer_literal radix (drop 2 literal) of
                  None \<Rightarrow> NaN
                | Some n \<Rightarrow> number_of (of_int n))))"

subsection \<open>The relational operators\<close>

text \<open>
  \<^verbatim>\<open>ToNumber\<close>: \<^verbatim>\<open>undefined\<close> is \<^verbatim>\<open>NaN\<close>, \<^verbatim>\<open>null\<close> and \<^verbatim>\<open>false\<close> are \<open>+0\<close>, \<^verbatim>\<open>true\<close> is 1.
\<close>

fun to_number :: "primitive \<Rightarrow> number" where
  "to_number (Num x) = x"
| "to_number (Str s) = string_to_number s"
| "to_number (Bool b) = (if b then Finite False 1 else Finite False 0)"
| "to_number Null = Finite False 0"
| "to_number Undef = NaN"

text \<open>
  \<^verbatim>\<open>x < y\<close> on two numbers: false when either is \<^verbatim>\<open>NaN\<close>; otherwise the order of the
  values, in which the two zeros are equal.
\<close>

fun number_less :: "number \<Rightarrow> number \<Rightarrow> bool" where
  "number_less (Finite s m) (Finite t n) = (real_value s m < real_value t n)"
| "number_less (Finite s m) (Infinity t) = (\<not> t)"
| "number_less (Infinity s) (Finite t n) = s"
| "number_less (Infinity s) (Infinity t) = (s \<and> \<not> t)"
| "number_less NaN y = False"
| "number_less x NaN = False"

text \<open>
  \<^verbatim>\<open>x < y\<close> on two primitive values: two strings are compared character by character,
  a proper prefix being smaller; in every other case both sides are converted to numbers.
  \<^verbatim>\<open>x > y\<close> is \<^verbatim>\<open>y < x\<close>.
\<close>

fun js_less :: "primitive \<Rightarrow> primitive \<Rightarrow> bool" where
  "js_less (Str s) (Str t) = (s < t)"
| "js_less x y = number_less (to_number x) (to_number y)"

definition js_greater :: "primitive \<Rightarrow> primitive \<Rightarrow> bool" where
  "js_greater x y = js_less y x"


section \<open>The records of the dashboard\<close>

text \<open>
  The three SharePoint lists of \<^verbatim>\<open>src/App.jsx\<close> hold flat objects that all carry
  \<^verbatim>\<open>Id\<close> and \<^verbatim>\<open>Title\<close>. JavaScript gives a property no type, so every property holds a
  primitive value; a property that an object lacks reads as \<^verbatim>\<open>undefined\<close>.
\<close>

record entry =
  Id :: primitive
  Title :: primitive

record transaction = entry +
  Amount :: primitive
  Category :: primitive
  Date :: primitive
  Status :: primitive

record budget_category = entry +
  Allocated :: primitive
  Spent :: primitive

record metric = entry +
  Value :: primitive
  PreviousValue :: primitive

datatype item =
    Transaction transaction
  | BudgetCategory budget_category
  | Metric metric


section \<open>SharePointService\<close>

subsection \<open>The object literal \<^verbatim>\<open>mockData\<close>\<close>

definition Financial_Transactions :: "transaction list" where
  "Financial_Transactions =
    [\<lparr>Id = Num (number_of 1), Title = Str ''Q2 Revenue'', Amount = Num (number_of 125000),
      Category = Str ''Income'', Date = Str ''2025-06-01T00:00:00Z'',
      Status = Str ''Completed''\<rparr>,
     \<lparr>Id = Num (number_of 2), Title = Str ''Office Operations'',
      Amount = Num (number_of (- 15000)), Category = Str ''Operating Expense'',
      Date = Str ''2025-06-02T00:00:00Z'', Status = Str ''Completed''\<rparr>,
     \<lparr>Id = Num (number_of 3), Title = Str ''Marketing Campaign'',
      Amount = Num (number_of (- 8500)), Category = Str ''Marketing'',
      Date = Str ''2025-06-03T00:00:00Z'', Status = Str ''Pending''\<rparr>,
     \<lparr>Id = Num (number_of 4), Title = Str ''Software Licenses'',
      Amount = Num (number_of (- 3200)), Category = Str ''Technology'',
      Date = Str ''2025-06-04T00:00:00Z'', Status = Str ''Completed''\<rparr>]"

definition Budget_Categories :: "budget_category list" where
  "Budget_Categories =
    [\<lparr>Id = Num (number_of 1), Title = Str ''Marketing'', Allocated = Num (number_of 15000),
      Spent = Num (number_of 12500)\<rparr>,
     \<lparr>Id = Num (number_of 2), Title = Str ''Technology'', Allocated = Num (number_of 8000),
      Spent = Num (number_of 6200)\<rparr>,
     \<lparr>Id = Num (number_of 3), Title = Str ''Operations'', Allocated = Num (number_of 25000),
      Spent = Num (number_of 18300)\<rparr>,
     \<lparr>Id = Num (number_of 4), Title = Str ''Travel'', Allocated = Num (number_of 5000),
      Spent = Num (number_of 1200)\<rparr>]"

definition Company_Metrics :: "metric list" where
  "Company_Metrics =
    [\<lparr>Id = Num (number_of 1), Title = Str ''Total Revenue'', Value = Num (number_of 125000),
      PreviousValue = Num (number_of 110000)\<rparr>,
     \<lparr>Id = Num (number_of 2), Title = Str ''Operating Expenses'',
      Value = Num (number_of 52000), PreviousValue = Num (number_of 58000)\<rparr>,
     \<lparr>Id = Num (number_of 3), Title = Str ''Net Profit'', Value = Num (number_of 73000),
      PreviousValue = Num (number_of 52000)\<rparr>,
     \<lparr>Id = Num (number_of 4), Title = Str ''Growth Rate'', Value = Num (number_of (185 / 10)),
      PreviousValue = Num (number_of (123 / 10))\<rparr>]"

text \<open>The own properties of \<^verbatim>\<open>mockData\<close>, in the order of the literal.\<close>

definition mockData :: "(string \<times> item list) list" where
  "mockData =
    [(''Financial_Transactions'', map Transaction Financial_Transactions),
     (''Budget_Categories'', map BudgetCategory Budget_Categories),
     (''Company_Metrics'', map Metric Company_Metrics)]"

subsection \<open>Property lookup\<close>

text \<open>
  \<^verbatim>\<open>mockData\<close> is an ordinary object literal, so its prototype is \<^verbatim>\<open>Object.prototype\<close>
  and \<^verbatim>\<open>mockData[listTitle]\<close> finds the members inherited from it when \<^verbatim>\<open>listTitle\<close>
  is not an own property: the standard methods, the legacy accessor helpers and the
  \<^verbatim>\<open>__proto__\<close> accessor.
\<close>

definition Object_prototype :: "string list" where
  "Object_prototype =
    [''constructor'', ''hasOwnProperty'', ''isPrototypeOf'', ''propertyIsEnumerable'',
     ''toLocaleString'', ''toString'', ''valueOf'', ''__proto__'',
     ''__defineGetter__'', ''__defineSetter__'', ''__lookupGetter__'',
     ''__lookupSetter__'']"

text \<open>
  What a lookup on \<^verbatim>\<open>mockData\<close> can yield: one of the arrays, a member inherited from
  \<^verbatim>\<open>Object.prototype\<close> (a function, or the prototype object for \<^verbatim>\<open>__proto__\<close>), or
  \<^verbatim>\<open>undefined\<close>.
\<close>

datatype js_value =
    Array "item list"
  | Inherited string
  | Undefined

definition get_property :: "string \<Rightarrow> js_value" where
  "get_property listTitle =
    (case map_of mockData listTitle of
       Some items \<Rightarrow> Array items
     | None \<Rightarrow> if listTitle \<in> set Object_prototype then Inherited listTitle else Undefined)"

text \<open>
  \<^verbatim>\<open>ToBoolean\<close>: every object is truthy, an empty array and a function included; of the
  values above only \<^verbatim>\<open>undefined\<close> is falsy.
\<close>

fun truthy :: "js_value \<Rightarrow> bool" where
  "truthy (Array items) = True"
| "truthy (Inherited name) = True"
| "truthy Undefined = False"

subsection \<open>\<^verbatim>\<open>getMockData\<close> and \<^verbatim>\<open>getListItems\<close>\<close>

text \<open>\<^verbatim>\<open>return mockData[listTitle] || [];\<close>\<close>

definition getMockData :: "string \<Rightarrow> js_value" where
  "getMockData listTitle =
    (let found = get_property listTitle in if truthy found then found else Array [])"

text \<open>
  An \<^verbatim>\<open>async\<close> function returns a promise, which settles as fulfilled with the returned
  value or as rejected with what was thrown. \<^verbatim>\<open>getListItems\<close> first awaits a timer of
  800 ms, which always resolves, and then returns \<^verbatim>\<open>{ value: getMockData(listTitle) }\<close>;
  \<^verbatim>\<open>siteUrl\<close> and \<^verbatim>\<open>selectFields\<close> are not read.
\<close>

datatype 'a settled =
    Fulfilled 'a
  | Rejected string

record response =
  "value" :: js_value

record 'a promise =
  delay :: nat
  outcome :: "'a settled"

definition getListItems :: "string \<Rightarrow> string \<Rightarrow> string \<Rightarrow> response promise" where
  "getListItems siteUrl listTitle selectFields =
    \<lparr>delay = 800, outcome = Fulfilled \<lparr>value = getMockData listTitle\<rparr>\<rparr>"



section \<open>TransactionTable\<close>

subsection \<open>Array.prototype.sort\<close>

text \<open>
  \<^verbatim>\<open>sort\<close> belongs to the engine, not to the repository. It rearranges the array by the
  sign of \<^verbatim>\<open>comparefn\<close> alone; which pairs it compares, and in which order of arguments,
  is the engine's choice, and the language fixes the result only for a comparator that
  answers 0 for equal elements, which the comparator below never does. The model is
  insertion sort, the procedure of the engines on short arrays: each element in turn (the
  pivot) moves to the left past the earlier elements until the comparator says to stop.
  An engine is represented by the question that it puts to the comparator, and there are
  two. \<open>PivotFirst\<close> moves the pivot past an earlier element \<^verbatim>\<open>e\<close> when
  \<^verbatim>\<open>comparefn(pivot, e) < 0\<close>, which is the test of V8, the engine of Chrome and Node.
  \<open>EarlierFirst\<close> stops when \<^verbatim>\<open>comparefn(e, pivot) <= 0\<close> and moves the pivot otherwise, which
  is the test of the insertion sort of SpiderMonkey, the engine of Firefox.
\<close>

datatype engine =
    PivotFirst
  | EarlierFirst

fun moves :: "engine \<Rightarrow> ('a \<Rightarrow> 'a \<Rightarrow> int) \<Rightarrow> 'a \<Rightarrow> 'a \<Rightarrow> bool" where
  "moves PivotFirst comparefn pivot e = (comparefn pivot e < 0)"
| "moves EarlierFirst comparefn pivot e = (\<not> comparefn e pivot \<le> 0)"

text \<open>The part already sorted is passed with its last element first.\<close>

fun insert_pivot :: "engine \<Rightarrow> ('a \<Rightarrow> 'a \<Rightarrow> int) \<Rightarrow> 'a \<Rightarrow> 'a list \<Rightarrow> 'a list" where
  "insert_pivot engine comparefn pivot [] = [pivot]"
| "insert_pivot engine comparefn pivot (e # earlier) =
    (if moves engine comparefn pivot e then e # insert_pivot engine comparefn pivot earlier
     else pivot # e # earlier)"

definition array_sort :: "engine \<Rightarrow> ('a \<Rightarrow> 'a \<Rightarrow> int) \<Rightarrow> 'a list \<Rightarrow> 'a list" where
  "array_sort engine comparefn xs =
    rev (foldl (\<lambda>sorted_part pivot. insert_pivot engine comparefn pivot sorted_part) [] xs)"

subsection \<open>The comparator of \<^verbatim>\<open>sortedTransactions\<close>\<close>

text \<open>
  \<^verbatim>\<open>a[orderBy]\<close> reads one of the six properties of a transaction, whatever value it
  holds. For any other name the read gives \<^verbatim>\<open>undefined\<close> or a member inherited from
  \<^verbatim>\<open>Object.prototype\<close>, the same for every record, which is neither less nor greater
  than itself, as \<^verbatim>\<open>undefined\<close> is.
\<close>

definition get_field :: "transaction \<Rightarrow> string \<Rightarrow> primitive" where
  "get_field a orderBy =
    (if orderBy = ''Id'' then Id a
     else if orderBy = ''Title'' then Title a
     else if orderBy = ''Amount'' then Amount a
     else if orderBy = ''Category'' then Category a
     else if orderBy = ''Date'' then Date a
     else if orderBy = ''Status'' then Status a
     else Undef)"

text \<open>
  \<^verbatim>\<open>(a, b) => { if (order === 'asc') { return a[orderBy] < b[orderBy] ? -1 : 1; }
  return a[orderBy] > b[orderBy] ? -1 : 1; }\<close>
\<close>

definition compare :: "string \<Rightarrow> string \<Rightarrow> transaction \<Rightarrow> transaction \<Rightarrow> int" where
  "compare order orderBy a b =
    (if order = ''asc'' then (if js_less (get_field a orderBy) (get_field b orderBy) then - 1 else 1)
     else (if js_greater (get_field a orderBy) (get_field b orderBy) then - 1 else 1))"

text \<open>
  \<^verbatim>\<open>[...transactions].sort(comparator)\<close>, as a function of the engine and of the array's
  contents.
\<close>

definition sortedTransactions ::
  "engine \<Rightarrow> transaction list \<Rightarrow> string \<Rightarrow> string \<Rightarrow> transaction list" where
  "sortedTransactions engine transactions order orderBy =
    array_sort engine (compare order orderBy) transactions"

subsection \<open>Arrays in the store\<close>

text \<open>
  \<^verbatim>\<open>sort\<close> works in place and returns the array it was called on, so whether the caller's
  array survives depends on which array that is. Arrays live in a store, addressed by
  references; \<^verbatim>\<open>[...a]\<close> allocates a new array with the elements of \<^verbatim>\<open>a\<close>. A reference
  that the store does not hold is no array, and both operations fail on it.
\<close>

record store =
  arrays :: "nat \<Rightarrow> transaction list option"
  fresh :: nat

definition spread :: "store \<Rightarrow> nat \<Rightarrow> (nat \<times> store) option" where
  "spread s a =
    (case arrays s a of
       None \<Rightarrow> None
     | Some xs \<Rightarrow>
         Some (fresh s, s\<lparr>arrays := (arrays s)(fresh s \<mapsto> xs), fresh := Suc (fresh s)\<rparr>))"

definition sort_in_place ::
  "engine \<Rightarrow> (transaction \<Rightarrow> transaction \<Rightarrow> int) \<Rightarrow> store \<Rightarrow> nat \<Rightarrow> (nat \<times> store) option" where
  "sort_in_place engine comparefn s a =
    (case arrays s a of
       None \<Rightarrow> None
     | Some xs \<Rightarrow> Some (a, s\<lparr>arrays := (arrays s)(a \<mapsto> array_sort engine comparefn xs)\<rparr>))"

definition sortedTransactions_ref ::
  "engine \<Rightarrow> store \<Rightarrow> nat \<Rightarrow> string \<Rightarrow> string \<Rightarrow> (nat \<times> store) option" where
  "sortedTransactions_ref engine s transactions order orderBy =
    (case spread s transactions of
       None \<Rightarrow> None
     | Some (copy, s') \<Rightarrow> sort_in_place engine (compare order orderBy) s' copy)"

text \<open>Every array of a well-formed store lies below the next free reference.\<close>

definition wf_store :: "store \<Rightarrow> bool" where
  "wf_store s = (\<forall>a. arrays s a \<noteq> None \<longrightarrow> a < fresh s)"


subsection \<open>Being sorted, in the words of the specification\<close>

text \<open>
  A sequence is sorted by a field and a direction when no record is followed, anywhere
  later in the sequence, by one that belongs before it: a smaller one when ascending, a
  greater one otherwise. Like the comparator, this takes every direction but
  \<^verbatim>\<open>'asc'\<close> as descending.
\<close>

definition in_order :: "string \<Rightarrow> string \<Rightarrow> transaction list \<Rightarrow> bool" where
  "in_order order orderBy xs =
    sorted_wrt (\<lambda>a b.
      if order = ''asc'' then \<not> js_less (get_field b orderBy) (get_field a orderBy)
      else \<not> js_greater (get_field b orderBy) (get_field a orderBy)) xs"

text \<open>
  Two records are tied on a field when neither value is less than the other: equal
  values, the two zeros, and every pair with a value that \<^verbatim>\<open><\<close> cannot order, such as
  \<^verbatim>\<open>NaN\<close>, \<^verbatim>\<open>undefined\<close> or a string that is no number against a number. A sequence is
  untied when no two of its records, at different positions, are tied.
\<close>

definition untied :: "string \<Rightarrow> transaction list \<Rightarrow> bool" where
  "untied orderBy xs =
    sorted_wrt (\<lambda>a b.
      js_less (get_field a orderBy) (get_field b orderBy)
      \<or> js_less (get_field b orderBy) (get_field a orderBy)) xs"

text \<open>
  The values of a field are linearly ordered in a sequence when it is untied and \<^verbatim>\<open><\<close> is
  transitive on the values that occur, as it is on numbers alone and on strings alone.
\<close>

definition linearly_ordered :: "string \<Rightarrow> transaction list \<Rightarrow> bool" where
  "linearly_ordered orderBy xs =
    (untied orderBy xs
     \<and> (\<forall>a\<in>set xs. \<forall>b\<in>set xs. \<forall>c\<in>set xs.
          js_less (get_field a orderBy) (get_field b orderBy)
          \<and> js_less (get_field b orderBy) (get_field c orderBy)
          \<longrightarrow> js_less (get_field a orderBy) (get_field c orderBy)))"


section \<open>MetricCards\<close>

subsection \<open>Arithmetic\<close>

text \<open>
  \<^verbatim>\<open>x - y\<close>. An exact difference of zero is \<open>-0\<close> only for \<open>(-0) - (+0)\<close>; infinities of
  the same sign have no difference.
\<close>

fun js_minus :: "number \<Rightarrow> number \<Rightarrow> number" where
  "js_minus (Finite s a) (Finite t b) =
    (let v = real_value s a - real_value t b
     in if v = 0 then Finite (s \<and> \<not> t) 0 else round_to_double (v < 0) \<bar>v\<bar>)"
| "js_minus (Finite s a) (Infinity t) = Infinity (\<not> t)"
| "js_minus (Infinity s) (Finite t b) = Infinity s"
| "js_minus (Infinity s) (Infinity t) = (if s = t then NaN else Infinity s)"
| "js_minus x y = NaN"

text \<open>
  \<^verbatim>\<open>x / y\<close>. Division by a zero does not throw: it gives \<^verbatim>\<open>NaN\<close> for a zero dividend and
  an infinity otherwise. The sign of a quotient is negative when the signs differ.
\<close>

fun js_divide :: "number \<Rightarrow> number \<Rightarrow> number" where
  "js_divide (Finite s a) (Finite t b) =
    (if b = 0 then (if a = 0 then NaN else Infinity (s \<noteq> t))
     else if a = 0 then Finite (s \<noteq> t) 0
     else round_to_double (s \<noteq> t) (a / b))"
| "js_divide (Finite s a) (Infinity t) = Finite (s \<noteq> t) 0"
| "js_divide (Infinity s) (Finite t b) = Infinity (s \<noteq> t)"
| "js_divide x y = NaN"

text \<open>\<^verbatim>\<open>x * y\<close>.\<close>

fun js_times :: "number \<Rightarrow> number \<Rightarrow> number" where
  "js_times (Finite s a) (Finite t b) =
    (if a = 0 \<or> b = 0 then Finite (s \<noteq> t) 0 else round_to_double (s \<noteq> t) (a * b))"
| "js_times (Finite s a) (Infinity t) = (if a = 0 then NaN else Infinity (s \<noteq> t))"
| "js_times (Infinity s) (Finite t b) = (if b = 0 then NaN else Infinity (s \<noteq> t))"
| "js_times (Infinity s) (Infinity t) = Infinity (s \<noteq> t)"
| "js_times x y = NaN"

subsection \<open>Number.prototype.toFixed\<close>

definition digit :: "int \<Rightarrow> char" where
  "digit d = ''0123456789'' ! nat d"

text \<open>The decimal digits of a non-negative integer, \<^verbatim>\<open>0\<close> for zero.\<close>

function decimal :: "int \<Rightarrow> string" where
  "decimal n = (if n < 10 then [digit n] else decimal (n div 10) @ [digit (n mod 10)])"
  by pat_completeness auto
termination
  by (relation "measure nat") auto

declare decimal.simps [simp del]

text \<open>
  From \<open>10\<^sup>2\<^sup>1\<close> on, \<^verbatim>\<open>toFixed\<close> gives what \<^verbatim>\<open>String(x)\<close> gives, which there is the
  exponential notation \<^verbatim>\<open>d.ddde+n\<close> with as few digits as identify the double: the least
  \<open>k\<close>, and then integers \<open>s\<close> of \<open>k\<close> digits and \<open>n\<close>, such that \<open>s \<times> 10\<^sup>n\<^sup>-\<^sup>k\<close> rounds to
  \<open>x\<close>, the closest \<open>s\<close> if several do. Seventeen digits always suffice. \<open>d\<close> is the number
  of digits of the integer \<open>x\<close>; \<open>n\<close> is \<open>d\<close>, or \<open>d + 1\<close> when \<open>10\<^sup>d\<close> itself rounds to \<open>x\<close>.
\<close>

definition represents :: "rat \<Rightarrow> int \<Rightarrow> int \<Rightarrow> bool" where
  "represents x s scale = (round_to_double False (of_int (s * scale)) = Finite False x)"

definition candidate :: "nat \<Rightarrow> rat \<Rightarrow> nat \<Rightarrow> int option" where
  "candidate k x d =
    (let scale = 10 ^ (d - k);
         lo = \<lfloor>x / of_int scale\<rfloor>;
         hi = lo + 1;
         lo_ok = represents x lo scale;
         hi_ok = (hi < 10 ^ k \<and> represents x hi scale);
         lo_err = x - of_int (lo * scale);
         hi_err = of_int (hi * scale) - x
     in if lo_ok \<and> (\<not> hi_ok \<or> lo_err < hi_err \<or> (lo_err = hi_err \<and> even lo)) then Some lo
        else if hi_ok then Some hi
        else None)"

primrec shortest :: "nat \<Rightarrow> nat \<Rightarrow> rat \<Rightarrow> nat \<Rightarrow> int" where
  "shortest 0 k x d =
    (case candidate k x d of Some s \<Rightarrow> s | None \<Rightarrow> \<lfloor>x / of_int (10 ^ (d - k))\<rfloor>)"
| "shortest (Suc fuel) k x d =
    (case candidate k x d of Some s \<Rightarrow> s | None \<Rightarrow> shortest fuel (Suc k) x d)"

definition exponential :: "rat \<Rightarrow> string" where
  "exponential x =
    (let d = length (decimal \<lfloor>x\<rfloor>);
         (s, n) = (if represents x 1 (10 ^ d) then (1, d + 1) else (shortest 16 1 x d, d));
         digits = decimal s
     in (if length digits = 1 then digits else hd digits # ''.'' @ tl digits)
        @ ''e+'' @ decimal (int n - 1))"

text \<open>
  \<^verbatim>\<open>x.toFixed(1)\<close>. A number that is not finite gives its name. Otherwise the sign is
  split off (a zero has none), and below \<open>10\<^sup>2\<^sup>1\<close> the digits are those of the integer
  \<open>n\<close> for which \<open>n / 10\<close> is nearest to the magnitude, the larger \<open>n\<close> of two equally near
  ones, padded to two digits, with the point before the last one.
\<close>

fun toFixed_1 :: "number \<Rightarrow> string" where
  "toFixed_1 NaN = ''NaN''"
| "toFixed_1 (Infinity s) = (if s then ''-Infinity'' else ''Infinity'')"
| "toFixed_1 (Finite s x) =
    (let sign = (if s \<and> 0 < x then ''-'' else [])
     in if 10 ^ 21 \<le> x then sign @ exponential x
        else let n = \<lfloor>x * 10 + 1 / 2\<rfloor>;
                 m = decimal n;
                 m = (if length m \<le> 1 then replicate (2 - length m) CHR ''0'' @ m else m)
             in sign @ butlast m @ ''.'' @ [last m])"

subsection \<open>\<^verbatim>\<open>calculateChange\<close>\<close>

text \<open>\<^verbatim>\<open>return ((current - previous) / previous * 100).toFixed(1);\<close>\<close>

definition calculateChange :: "number \<Rightarrow> number \<Rightarrow> string" where
  "calculateChange current previous =
    toFixed_1 (js_times (js_divide (js_minus current previous) previous) (number_of 100))"

subsection \<open>Percent change, in the words of the specification\<close>

text \<open>
  The specification's percent change is the exact quotient, rounded to one decimal place:
  to the nearest multiple of one tenth, and away from zero from a midpoint.
\<close>

definition round_to_tenth :: "rat \<Rightarrow> rat" where
  "round_to_tenth x = (if x < 0 then - of_int \<lfloor>- x * 10 + 1 / 2\<rfloor> / 10 else of_int \<lfloor>x * 10 + 1 / 2\<rfloor> / 10)"

definition exact_change :: "rat \<Rightarrow> rat \<Rightarrow> rat" where
  "exact_change current previous = (current - previous) / previous * 100"

definition percentChange :: "rat \<Rightarrow> rat \<Rightarrow> rat" where
  "percentChange current previous = round_to_tenth (exact_change current previous)"

text \<open>
  The number that a string in fixed notation denotes: an optional minus sign, digits, a
  point and one more digit.
\<close>

definition digits_value :: "string \<Rightarrow> int option" where
  "digits_value cs =
    (if cs \<noteq> [] \<and> (\<forall>c \<in> set cs. CHR ''0'' \<le> c \<and> c \<le> CHR ''9'')
     then Some (foldl (\<lambda>v c. 10 * v + (of_char c - 48)) 0 cs) else None)"

definition fixed_value :: "string \<Rightarrow> rat option" where
  "fixed_value str =
    (let negative = (str \<noteq> [] \<and> hd str = CHR ''-'');
         body = (if negative then tl str else str)
     in if length body < 3 \<or> body ! (length body - 2) \<noteq> CHR ''.'' then None
        else case digits_value (take (length body - 2) body @ [last body]) of
               None \<Rightarrow> None
             | Some n \<Rightarrow> Some (real_value negative (of_int n / 10)))"


section \<open>Results on SharePointService\<close>

text \<open>
  C7. For each of the three recognised names, \<^verbatim>\<open>getMockData\<close> returns the array written
  in the literal under that name, with the same records in the same order, and the promise
  of \<^verbatim>\<open>getListItems\<close> is fulfilled with exactly that array as its \<^verbatim>\<open>value\<close>.
\<close>

theorem fetch_recognized:
  "getMockData ''Financial_Transactions'' = Array (map Transaction Financial_Transactions)
   \<and> getMockData ''Budget_Categories'' = Array (map BudgetCategory Budget_Categories)
   \<and> getMockData ''Company_Metrics'' = Array (map Metric Company_Metrics)
   \<and> outcome (getListItems siteUrl ''Financial_Transactions'' selectFields)
       = Fulfilled \<lparr>value = Array (map Transaction Financial_Transactions)\<rparr>
   \<and> outcome (getListItems siteUrl ''Budget_Categories'' selectFields)
       = Fulfilled \<lparr>value = Array (map BudgetCategory Budget_Categories)\<rparr>
   \<and> outcome (getListItems siteUrl ''Company_Metrics'' selectFields)
       = Fulfilled \<lparr>value = Array (map Metric Company_Metrics)\<rparr>"
  by (simp add: getListItems_def getMockData_def get_property_def mockData_def)

text \<open>
  A name that is neither an own property of \<^verbatim>\<open>mockData\<close> nor a member of
  \<^verbatim>\<open>Object.prototype\<close> is looked up as \<^verbatim>\<open>undefined\<close> and replaced by the empty array;
  an inherited member is truthy and is returned as it is.
\<close>

lemma getMockData_unknown:
  assumes "listTitle \<notin> fst ` set mockData" and "listTitle \<notin> set Object_prototype"
  shows "getMockData listTitle = Array []"
proof -
  have "map_of mockData listTitle = None"
    using assms(1) by (simp add: map_of_eq_None_iff)
  with assms(2) show ?thesis by (simp add: getMockData_def get_property_def)
qed

lemma getMockData_inherited:
  assumes "listTitle \<in> set Object_prototype"
  shows "getMockData listTitle = Inherited listTitle"
proof -
  have "map_of mockData listTitle = None"
    using assms by (auto simp: mockData_def Object_prototype_def)
  with assms show ?thesis by (simp add: getMockData_def get_property_def)
qed

lemma getMockData_not_inherited:
  assumes "listTitle \<notin> set Object_prototype"
  shows "\<exists>records. getMockData listTitle = Array records"
  using assms by (simp add: getMockData_def get_property_def split: option.splits)

text \<open>
  C8. The fetch of an unrecognised name is not always the empty sequence: \<^verbatim>\<open>'constructor'\<close>
  is not one of the three dataset names, yet \<^verbatim>\<open>mockData['constructor']\<close> is the inherited
  \<^verbatim>\<open>Object\<close> function, which the fallback \<^verbatim>\<open>|| []\<close> lets through.
\<close>

theorem fetch_inherited_name:
  "getMockData ''constructor'' = Inherited ''constructor''
   \<and> outcome (getListItems ''https://contoso.sharepoint.com'' ''constructor'' ''*'')
       = Fulfilled \<lparr>value = Inherited ''constructor''\<rparr>"
  by (simp add: getListItems_def getMockData_def get_property_def mockData_def
      Object_prototype_def)

text \<open>
  The promise of \<^verbatim>\<open>getListItems\<close> is never rejected: for every name it is fulfilled, after
  the delay of 800 ms. What it is fulfilled with is a sequence of records exactly when the
  name is not a member of \<^verbatim>\<open>Object.prototype\<close>.
\<close>

lemma getListItems_fulfilled:
  "\<exists>v. getListItems siteUrl listTitle selectFields = \<lparr>delay = 800, outcome = Fulfilled v\<rparr>"
  by (simp add: getListItems_def)

lemma getListItems_never_rejected:
  "outcome (getListItems siteUrl listTitle selectFields) \<noteq> Rejected e"
  by (simp add: getListItems_def)

lemma getListItems_records_iff:
  "(\<exists>records. outcome (getListItems siteUrl listTitle selectFields)
      = Fulfilled \<lparr>value = Array records\<rparr>)
    \<longleftrightarrow> listTitle \<notin> set Object_prototype"
proof (cases "listTitle \<in> set Object_prototype")
  case True
  then show ?thesis by (simp add: getListItems_def getMockData_inherited)
next
  case False
  with getMockData_not_inherited [OF False] show ?thesis by (auto simp: getListItems_def)
qed

text \<open>
  C9. The fetch does not always end with a sequence of records: for the name
  \<^verbatim>\<open>'toString'\<close> the promise is fulfilled, as for every name, but with the function
  inherited from \<^verbatim>\<open>Object.prototype\<close>, which is neither the empty sequence nor any other.
  This is the defect of C8, the fallback \<^verbatim>\<open>|| []\<close> that does not see the prototype chain,
  met through \<^verbatim>\<open>getListItems\<close>.
\<close>

theorem fetch_not_always_records:
  "outcome (getListItems ''https://contoso.sharepoint.com'' ''toString'' ''*'')
     = Fulfilled \<lparr>value = Inherited ''toString''\<rparr>
   \<and> getMockData ''toString'' \<noteq> Array []"
  by (simp add: getListItems_def getMockData_def get_property_def mockData_def
      Object_prototype_def)


section \<open>Results on the numbers\<close>

subsection \<open>The binary exponent\<close>

lemma floor_log2_bounds:
  assumes "0 < m"
  shows "2 powi floor_log2 m \<le> m" and "m < 2 powi (floor_log2 m + 1)"
proof -
  have "2 powi floor_log2 m \<le> m \<and> m < 2 powi (floor_log2 m + 1)"
  proof (cases "1 \<le> m")
    case True
    define n where "n = \<lfloor>m\<rfloor>"
    have n: "0 < n" using True by (simp add: n_def)
    from bitlen_bounds [OF n]
    have lo: "2 ^ nat (bitlen n - 1) \<le> n" and hi: "n < 2 ^ nat (bitlen n)" by auto
    have b1: "1 \<le> bitlen n" using n bitlen_eq_zero_iff [of n] bitlen_nonneg [of n] by linarith
    have fl: "floor_log2 m = bitlen n - 1" using True by (simp add: floor_log2_def n_def)
    have "(2::rat) powi (bitlen n - 1) = of_int (2 ^ nat (bitlen n - 1))"
      using b1 by (simp add: power_int_nonneg_exp)
    also have "\<dots> \<le> of_int n" using lo by (simp only: of_int_le_iff)
    also have "\<dots> \<le> m" by (simp add: n_def)
    finally have 1: "2 powi floor_log2 m \<le> m" by (simp add: fl)
    have "n + 1 \<le> 2 ^ nat (bitlen n)" using hi by simp
    then have le: "(of_int (n + 1) :: rat) \<le> of_int (2 ^ nat (bitlen n))"
      by (simp only: of_int_le_iff)
    have "m < of_int (n + 1)" unfolding n_def by linarith
    also note le
    also have "of_int (2 ^ nat (bitlen n)) = (2::rat) powi (bitlen n - 1 + 1)"
      using b1 by (simp add: power_int_nonneg_exp)
    finally have "m < 2 powi (floor_log2 m + 1)" by (simp add: fl)
    with 1 show ?thesis by simp
  next
    case False
    define t where "t = 1 / m"
    define n where "n = \<lfloor>t\<rfloor>"
    define l where "l = bitlen n - 1"
    have t1: "1 < t" using False assms by (simp add: t_def)
    have n: "0 < n" using t1 by (simp add: n_def)
    from bitlen_bounds [OF n]
    have lo: "2 ^ nat l \<le> n" and hi: "n < 2 ^ nat (bitlen n)" by (auto simp: l_def)
    have b1: "1 \<le> bitlen n" using n bitlen_eq_zero_iff [of n] bitlen_nonneg [of n] by linarith
    then have l0: "0 \<le> l" and nl: "nat (bitlen n) = Suc (nat l)" by (auto simp: l_def)
    have "(2::rat) ^ nat l = of_int (2 ^ nat l)" by simp
    also have "\<dots> \<le> of_int n" using lo by (simp only: of_int_le_iff)
    also have "\<dots> \<le> t" by (simp add: n_def)
    finally have tlo: "2 ^ nat l \<le> t" .
    have "n + 1 \<le> 2 ^ nat (bitlen n)" using hi by simp
    then have le: "(of_int (n + 1) :: rat) \<le> of_int (2 ^ nat (bitlen n))"
      by (simp only: of_int_le_iff)
    have "t < of_int (n + 1)" unfolding n_def by linarith
    also note le
    also have "of_int (2 ^ nat (bitlen n)) = (2::rat) ^ Suc (nat l)" by (simp add: nl)
    finally have thi: "t < 2 ^ Suc (nat l)" .
    have m: "m = 1 / t" using assms by (simp add: t_def)
    have mlo: "1 / 2 ^ Suc (nat l) < m"
      unfolding m using thi t1 by (simp add: field_simps)
    have mhi: "m \<le> 1 / 2 ^ nat l"
      unfolding m using tlo t1 by (simp add: field_simps)
    have p1: "(2::rat) powi (- l) = 1 / 2 ^ nat l"
      using l0 by (simp add: power_int_minus_divide power_int_nonneg_exp)
    have p2: "(2::rat) powi (- l - 1) = 1 / 2 ^ Suc (nat l)"
    proof -
      have "- l - 1 = - (l + 1)" by simp
      then have "(2::rat) powi (- l - 1) = 1 / 2 powi (l + 1)"
        by (simp only: power_int_minus_divide)
      also have "(2::rat) powi (l + 1) = 2 ^ Suc (nat l)"
        using l0 by (simp add: power_int_nonneg_exp nat_add_distrib)
      finally show ?thesis .
    qed
    have p3: "(2::rat) powi (- l + 1) = 2 * (1 / 2 ^ nat l)"
    proof -
      have "(2::rat) powi (- l + 1) = 2 powi (- l) * 2 powi 1"
        by (rule power_int_add) simp
      then show ?thesis by (simp add: p1)
    qed
    show ?thesis
    proof (cases "m * 2 ^ nat l = 1")
      case True
      then have fl: "floor_log2 m = - l"
        using False by (simp add: floor_log2_def Let_def t_def n_def l_def)
      have meq: "1 / 2 ^ nat l = m" using True by (simp add: field_simps)
      have "2 powi floor_log2 m = m" by (simp only: fl p1 meq)
      moreover have "2 powi (floor_log2 m + 1) = 2 * m" by (simp only: fl p3 meq)
      ultimately show ?thesis using assms by simp
    next
      case neq: False
      then have fl: "floor_log2 m = - l - 1"
        using False by (simp add: floor_log2_def Let_def t_def n_def l_def)
      have "m \<noteq> 1 / 2 ^ nat l" using neq by (auto simp: field_simps)
      with mhi have "m < 1 / 2 ^ nat l" by simp
      moreover have "- l - 1 + 1 = - l" by simp
      ultimately show ?thesis using mlo by (simp add: fl p1 p2 less_imp_le)
    qed
  qed
  then show "2 powi floor_log2 m \<le> m" and "m < 2 powi (floor_log2 m + 1)" by simp_all
qed

lemma powi_less_iff: "(2::rat) powi a < 2 powi b \<longleftrightarrow> a < b"
proof
  assume "(2::rat) powi a < 2 powi b"
  show "a < b"
  proof (rule ccontr)
    assume "\<not> a < b"
    then have "(2::rat) powi b \<le> 2 powi a" by (intro power_int_increasing) auto
    with \<open>(2::rat) powi a < 2 powi b\<close> show False by simp
  qed
next
  assume "a < b"
  then show "(2::rat) powi a < 2 powi b" by (intro power_int_strict_increasing) auto
qed

lemma powi_le_iff: "(2::rat) powi a \<le> 2 powi b \<longleftrightarrow> a \<le> b"
  using powi_less_iff [of b a] by (auto simp: not_less [symmetric])

lemma floor_log2_eq:
  assumes lo: "2 powi e \<le> m" and hi: "m < 2 powi (e + 1)"
  shows "floor_log2 m = e"
proof -
  have "(0::rat) < 2 powi e" by simp
  with lo have pos: "0 < m" by linarith
  note b = floor_log2_bounds [OF pos]
  have "(2::rat) powi floor_log2 m < 2 powi (e + 1)" using b(1) hi by linarith
  then have 1: "floor_log2 m < e + 1" by (simp only: powi_less_iff)
  have "(2::rat) powi e < 2 powi (floor_log2 m + 1)" using b(2) lo by linarith
  then have 2: "e < floor_log2 m + 1" by (simp only: powi_less_iff)
  from 1 2 show ?thesis by simp
qed

subsection \<open>Rounding to an integer\<close>

lemma round_half_even_near:
  assumes "\<bar>q - of_int k\<bar> < 1 / 2"
  shows "round_half_even q = k"
proof -
  have "\<lfloor>q\<rfloor> = k \<or> \<lfloor>q\<rfloor> = k - 1" using assms by linarith
  then show ?thesis
  proof
    assume f: "\<lfloor>q\<rfloor> = k"
    then have "q - of_int k < 1 / 2" using assms by linarith
    with f show ?thesis by (simp add: round_half_even_def Let_def)
  next
    assume f: "\<lfloor>q\<rfloor> = k - 1"
    then have "1 / 2 < q - of_int (k - 1)" using assms by (simp add: abs_if split: if_splits) 
    with f show ?thesis by (simp add: round_half_even_def Let_def)
  qed
qed

lemma round_half_even_of_int [simp]: "round_half_even (of_int k) = k"
  by (rule round_half_even_near) simp

lemma round_half_even_error: "\<bar>of_int (round_half_even q) - q\<bar> \<le> 1 / 2"
proof -
  define n where "n = \<lfloor>q\<rfloor>"
  define r where "r = q - of_int n"
  have r: "0 \<le> r" "r < 1" unfolding r_def n_def by linarith+
  have q: "q = of_int n + r" by (simp add: r_def)
  have "round_half_even q = (if r < 1 / 2 then n else if 1 / 2 < r then n + 1
      else if even n then n else n + 1)"
    by (simp add: round_half_even_def Let_def n_def r_def)
  then show ?thesis using r unfolding q by (auto simp: abs_if)
qed

lemma floor_rat_divide_numeral:
  "\<lfloor>(numeral a :: rat) / numeral b\<rfloor> = numeral a div numeral b"
  using floor_divide_of_int_eq [of "numeral a" "numeral b", where ?'a = rat] by simp

subsection \<open>Rounding to a double\<close>

lemma round_to_double_core:
  assumes lo: "2 powi e \<le> m" and hi: "m < 2 powi (e + 1)"
    and e: "- 1022 \<le> e"
    and k: "round_half_even (m / 2 powi (e - 52)) = k"
    and r: "(of_int k :: rat) * 2 powi (e - 52) < 2 powi 1024"
  shows "round_to_double s m = Finite s (of_int k * 2 powi (e - 52))"
proof -
  have fl: "floor_log2 m = e" using lo hi by (rule floor_log2_eq)
  have "(of_int k :: rat) * 2 powi (e - 52) < (2::rat) ^ 1024"
    using r by (simp only: power_int_numeral)
  then show ?thesis
    using e by (simp add: round_to_double_def fl k Let_def max_def)
qed

lemma powi_double: "(2::rat) powi (e + 1) + 2 powi (e + 1) = 2 powi (e + 2)"
proof -
  have "(2::rat) powi (e + 2) = 2 powi (e + 1) * 2 powi 1"
    using power_int_add [of "2::rat" "e + 1" 1] by (simp add: add.assoc)
  then show ?thesis by simp
qed

lemma round_to_double_near:
  assumes lo: "2 powi e \<le> m" and hi: "m < 2 powi (e + 1)"
    and e: "- 1022 \<le> e" "e < 1023"
    and k: "\<bar>m / 2 powi (e - 52) - of_int k\<bar> < 1 / 2"
  shows "round_to_double s m = Finite s (of_int k * 2 powi (e - 52))"
proof -
  let ?ulp = "(2::rat) powi (e - 52)"
  have ulp: "0 < ?ulp" by simp
  have rk: "round_half_even (m / ?ulp) = k" using k by (rule round_half_even_near)
  have "of_int k < m / ?ulp + 1 / 2" using k by linarith
  then have "of_int k * ?ulp < (m / ?ulp + 1 / 2) * ?ulp"
    using ulp by (simp only: mult_less_cancel_right_pos)
  also have "\<dots> = m + ?ulp / 2" using ulp by (simp add: field_simps)
  also have "?ulp / 2 \<le> 2 powi (e + 1)"
  proof -
    have "?ulp \<le> 2 powi (e + 1)" by (simp add: powi_le_iff)
    moreover have "?ulp / 2 \<le> ?ulp" using ulp by simp
    ultimately show ?thesis by linarith
  qed
  also have "m + 2 powi (e + 1) < 2 powi (e + 1) + 2 powi (e + 1)" using hi by simp
  also have "\<dots> = 2 powi (e + 2)" by (rule powi_double)
  also have "\<dots> \<le> 2 powi 1024"
  proof -
    have "e + 2 \<le> 1024" using e by simp
    then show ?thesis by (simp only: powi_le_iff)
  qed
  finally have "of_int k * ?ulp < 2 powi 1024" by simp
  with lo hi e(1) rk show ?thesis by (rule round_to_double_core)
qed

lemma round_to_double_exact:
  assumes lo: "2 powi e \<le> m" and hi: "m < 2 powi (e + 1)"
    and e: "- 1022 \<le> e" "e \<le> 1023"
    and k: "m / 2 powi (e - 52) = of_int k"
  shows "round_to_double s m = Finite s m"
proof -
  have km: "of_int k * 2 powi (e - 52) = m" using k [symmetric] by simp
  have "e + 1 \<le> 1024" using e by simp
  then have "(2::rat) powi (e + 1) \<le> 2 powi 1024" by (simp only: powi_le_iff)
  with hi have "m < 2 powi 1024" by linarith
  then have "(of_int k :: rat) * 2 powi (e - 52) < 2 powi 1024" by (simp only: km)
  moreover have "round_half_even (m / 2 powi (e - 52)) = k" by (simp add: k)
  ultimately have "round_to_double s m = Finite s (of_int k * 2 powi (e - 52))"
    using lo hi e(1) by (intro round_to_double_core)
  then show ?thesis by (simp only: km)
qed

lemma round_half_even_mono_int:
  assumes "of_int k \<le> q"
  shows "k \<le> round_half_even q"
proof -
  have "q - 1 / 2 \<le> of_int (round_half_even q)"
    using round_half_even_error [of q] by linarith
  with assms have "(of_int k :: rat) - 1 / 2 \<le> of_int (round_half_even q)" by linarith
  then have "(of_int k :: rat) < of_int (round_half_even q) + 1" by linarith
  then have "(of_int k :: rat) < of_int (round_half_even q + 1)" by simp
  then have "k < round_half_even q + 1" by (simp only: of_int_less_iff)
  then show ?thesis by simp
qed

lemma round_to_double_overflow:
  assumes "2 powi 1024 \<le> m"
  shows "round_to_double s m = Infinity s"
proof -
  have pos: "0 < m"
  proof -
    have "(0::rat) < 2 powi 1024" by (rule zero_less_power_int) simp
    with assms show ?thesis by linarith
  qed
  define e where "e = floor_log2 m"
  note b = floor_log2_bounds [OF pos, folded e_def]
  have "(2::rat) powi 1024 < 2 powi (e + 1)" using assms b(2) by linarith
  then have e: "1024 \<le> e" by (simp only: powi_less_iff)
  let ?ulp = "(2::rat) powi (e - 52)"
  have ulp: "0 < ?ulp" by simp
  have split: "(2::rat) powi e = 2 powi 52 * ?ulp"
    using power_int_add [of "2::rat" 52 "e - 52"] by simp
  have "(2::rat) powi 52 * ?ulp \<le> m" using b(1) by (simp only: split)
  then have "(2::rat) powi 52 \<le> m / ?ulp" using ulp by (simp add: field_simps)
  then have "of_int (2 ^ 52) \<le> m / ?ulp" by simp
  then have "2 ^ 52 \<le> round_half_even (m / ?ulp)" by (rule round_half_even_mono_int)
  then have "(of_int (2 ^ 52) :: rat) \<le> of_int (round_half_even (m / ?ulp))"
    by (simp only: of_int_le_iff)
  then have "(2::rat) powi 52 \<le> of_int (round_half_even (m / ?ulp))" by simp
  then have "(2::rat) powi 52 * ?ulp \<le> of_int (round_half_even (m / ?ulp)) * ?ulp"
    using ulp by (simp only: mult_le_cancel_right_pos)
  then have "(2::rat) powi e \<le> of_int (round_half_even (m / ?ulp)) * ?ulp"
    by (simp only: split)
  moreover have "(2::rat) powi 1024 \<le> 2 powi e" using e by (simp only: powi_le_iff)
  ultimately have "(2::rat) powi 1024 \<le> of_int (round_half_even (m / ?ulp)) * ?ulp"
    by linarith
  then have "(2::rat) ^ 1024 \<le> of_int (round_half_even (m / ?ulp)) * ?ulp"
    by (simp only: power_int_numeral)
  moreover have "max (floor_log2 m) (- 1022) = e" using e by (simp add: e_def)
  ultimately show ?thesis
    by (simp add: round_to_double_def Let_def del: power_int_numeral)
qed

lemma round_to_double_normal:
  assumes lo: "2 powi (- 1022) \<le> m" and hi: "m < 2 powi 1023"
  shows "\<exists>r. round_to_double s m = Finite s r \<and> \<bar>r - m\<bar> \<le> m * 2 powi (- 53)"
proof -
  have pos: "0 < m"
  proof -
    have "(0::rat) < 2 powi (- 1022)" by (rule zero_less_power_int) simp
    with lo show ?thesis by linarith
  qed
  define e where "e = floor_log2 m"
  note b = floor_log2_bounds [OF pos, folded e_def]
  have "(2::rat) powi (- 1022) < 2 powi (e + 1)" using lo b(2) by linarith
  then have e1: "- 1022 \<le> e" by (simp only: powi_less_iff)
  have "(2::rat) powi e < 2 powi 1023" using hi b(1) by linarith
  then have e2: "e < 1023" by (simp only: powi_less_iff)
  let ?ulp = "(2::rat) powi (e - 52)"
  define k where "k = round_half_even (m / ?ulp)"
  have ulp: "0 < ?ulp" by simp
  have half: "?ulp / 2 = 2 powi e * 2 powi (- 53)"
  proof -
    have "(2::rat) powi (e - 52) = 2 powi (e + (- 53)) * 2 powi 1"
      using power_int_add [of "2::rat" "e + (- 53)" 1] by simp
    also have "(2::rat) powi (e + (- 53)) = 2 powi e * 2 powi (- 53)"
      by (rule power_int_add) simp
    finally show ?thesis by simp
  qed
  have "\<bar>of_int k - m / ?ulp\<bar> \<le> 1 / 2" unfolding k_def by (rule round_half_even_error)
  then have "\<bar>of_int k - m / ?ulp\<bar> * ?ulp \<le> 1 / 2 * ?ulp"
    using ulp by (simp only: mult_le_cancel_right_pos)
  moreover have "\<bar>of_int k - m / ?ulp\<bar> * ?ulp = \<bar>of_int k * ?ulp - m\<bar>"
  proof -
    have "\<bar>of_int k - m / ?ulp\<bar> * ?ulp = \<bar>(of_int k - m / ?ulp) * ?ulp\<bar>"
      using ulp by (simp add: abs_mult)
    also have "(of_int k - m / ?ulp) * ?ulp = of_int k * ?ulp - m"
      using ulp by (simp add: field_simps)
    finally show ?thesis .
  qed
  ultimately have err: "\<bar>of_int k * ?ulp - m\<bar> \<le> 2 powi e * 2 powi (- 53)"
    using half by simp
  have p53: "(0::rat) < 2 powi (- 53)" by (rule zero_less_power_int) simp
  have "2 powi e * 2 powi (- 53) \<le> m * 2 powi (- 53)"
    using b(1) p53 by (simp only: mult_le_cancel_right_pos)
  with err have bound: "\<bar>of_int k * ?ulp - m\<bar> \<le> m * 2 powi (- 53)" by linarith
  have "(2::rat) powi (- 53) \<le> 2 powi 0" by (simp only: powi_le_iff)
  then have "(2::rat) powi (- 53) \<le> 1" by simp
  then have "m * 2 powi (- 53) \<le> m * 1" using pos by (simp only: mult_le_cancel_left_pos)
  with bound have "of_int k * ?ulp \<le> m + m" by linarith
  also have "\<dots> < 2 powi 1023 + 2 powi 1023" using hi by linarith
  also have "\<dots> = 2 powi 1024" using powi_double [of 1022] by simp
  finally have "of_int k * ?ulp < 2 powi 1024" .
  with b e1 have "round_to_double s m = Finite s (of_int k * ?ulp)"
    by (intro round_to_double_core) (simp_all add: k_def)
  with bound show ?thesis by blast
qed



subsection \<open>Integers below \<open>2\<^sup>5\<^sup>3\<close>\<close>

text \<open>Every integer of magnitude below \<open>2\<^sup>5\<^sup>3\<close> is a double, so its literal denotes it exactly.\<close>

lemma round_to_double_int:
  assumes "0 < n" and "n < 2 ^ 53"
  shows "round_to_double s (of_int n) = Finite s (of_int n)"
proof -
  let ?m = "of_int n :: rat"
  define e where "e = floor_log2 ?m"
  have pos: "0 < ?m" using assms(1) by simp
  have lo: "2 powi e \<le> ?m" and hi: "?m < 2 powi (e + 1)"
    using floor_log2_bounds [OF pos] by (simp_all add: e_def)
  have "1 \<le> ?m" using assms(1) by simp
  with hi have "(2::rat) powi 0 < 2 powi (e + 1)" by simp
  then have e0: "0 \<le> e" by (simp only: powi_less_iff)
  have "?m < of_int (2 ^ 53)" using assms(2) by (simp only: of_int_less_iff)
  then have "?m < 2 powi 53" by simp
  with lo have "(2::rat) powi e < 2 powi 53" by linarith
  then have e53: "e < 53" by (simp only: powi_less_iff)
  have "(2::rat) powi (e - 52) * 2 powi (52 - e) = 2 powi 0"
    using power_int_add [of "2::rat" "e - 52" "52 - e"] by simp
  then have "?m / 2 powi (e - 52) = ?m * 2 powi (52 - e)"
    by (simp add: field_simps)
  also have "(2::rat) powi (52 - e) = 2 ^ nat (52 - e)"
    using e53 by (simp add: power_int_def)
  also have "?m * 2 ^ nat (52 - e) = of_int (n * 2 ^ nat (52 - e))" by simp
  finally have k: "?m / 2 powi (e - 52) = of_int (n * 2 ^ nat (52 - e))" .
  show ?thesis
    using lo hi _ _ k by (rule round_to_double_exact) (use e0 e53 in simp_all)
qed

lemma number_of_numeral:
  "numeral w < (2::int) ^ 53 \<Longrightarrow> number_of (numeral w) = Finite False (numeral w)"
  using round_to_double_int [of "numeral w" False] by (simp add: number_of_def)

lemma number_of_neg_numeral:
  "numeral w < (2::int) ^ 53 \<Longrightarrow> number_of (- numeral w) = Finite True (numeral w)"
  using round_to_double_int [of "numeral w" True] by (simp add: number_of_def)

lemma number_of_1: "number_of 1 = Finite False 1"
  using round_to_double_int [of 1 False] by (simp add: number_of_def)

lemmas number_of_integer = number_of_numeral number_of_neg_numeral number_of_1

lemma round_to_double_numeral:
  "numeral w < (2::int) ^ 53 \<Longrightarrow> round_to_double s (numeral w) = Finite s (numeral w)"
  using round_to_double_int [of "numeral w" s] by simp

subsection \<open>Strings as numbers\<close>

lemmas string_to_number_simps =
  string_to_number_def trim_def is_white_space_def radix_of_def integer_literal_def
  decimal_literal_def unsigned_decimal_def is_decimal_digit_def digit_of_char_def
  exponent_part_def round_to_double_numeral number_of_integer

lemma string_to_number_empty: "string_to_number '''' = Finite False 0"
  by (simp add: string_to_number_simps)

lemma string_to_number_10: "string_to_number ''10'' = Finite False 10"
  by (simp add: string_to_number_simps)

lemma string_to_number_9: "string_to_number ''9'' = Finite False 9"
  by (simp add: string_to_number_simps)

lemma string_to_number_hexadecimal: "string_to_number '' 0x1F '' = Finite False 31"
  by (simp add: string_to_number_simps)

lemma string_to_number_exponent: "string_to_number ''-2.5e3'' = Finite True 2500"
  by (simp add: string_to_number_simps)

lemma string_to_number_date: "string_to_number ''2025-06-01T00:00:00Z'' = NaN"
  by (simp add: string_to_number_simps)

lemma string_to_number_word: "string_to_number ''Completed'' = NaN"
  by (simp add: string_to_number_simps)


section \<open>Results on the sort\<close>

subsection \<open>Insertion keeps the elements\<close>

lemma mset_insert_pivot: "mset (insert_pivot E c p acc) = add_mset p (mset acc)"
  by (induction acc) auto

lemma set_insert_pivot: "set (insert_pivot E c p acc) = insert p (set acc)"
  by (induction acc) auto

lemma distinct_insert_pivot:
  "distinct (insert_pivot E c p acc) \<longleftrightarrow> p \<notin> set acc \<and> distinct acc"
  using mset_eq_imp_distinct_iff [of "insert_pivot E c p acc" "p # acc"]
  by (simp add: mset_insert_pivot)

lemma mset_foldl_insert_pivot:
  "mset (foldl (\<lambda>sorted_part pivot. insert_pivot E c pivot sorted_part) acc xs)
    = mset xs + mset acc"
  by (induction xs arbitrary: acc) (auto simp: mset_insert_pivot)

lemma mset_array_sort: "mset (array_sort E c xs) = mset xs"
  by (simp add: array_sort_def mset_foldl_insert_pivot)

lemma set_array_sort: "set (array_sort E c xs) = set xs"
  using mset_array_sort [of E c xs] by (metis set_mset_mset)

lemma distinct_array_sort: "distinct (array_sort E c xs) \<longleftrightarrow> distinct xs"
  using mset_array_sort [of E c xs] by (rule mset_eq_imp_distinct_iff)

subsection \<open>An array in which no element would move is left as it is\<close>







subsection \<open>Engines that agree on distinct elements\<close>




subsection \<open>The result is sorted\<close>

lemma sorted_wrt_insert_pivot:
  assumes tr: "\<And>a b d. a \<in> S \<Longrightarrow> b \<in> S \<Longrightarrow> d \<in> S \<Longrightarrow> L a b \<Longrightarrow> L b d \<Longrightarrow> L a d"
    and link: "\<And>p e. p \<in> S \<Longrightarrow> e \<in> S \<Longrightarrow> p \<noteq> e \<Longrightarrow> (if moves E c p e then L p e else L e p)"
  shows "p \<in> S \<Longrightarrow> set acc \<subseteq> S \<Longrightarrow> p \<notin> set acc \<Longrightarrow> sorted_wrt (\<lambda>x y. L y x) acc \<Longrightarrow>
    sorted_wrt (\<lambda>x y. L y x) (insert_pivot E c p acc)"
proof (induction acc)
  case Nil
  then show ?case by simp
next
  case (Cons e earlier)
  have pe: "p \<in> S" "e \<in> S" "p \<noteq> e" using Cons.prems by auto
  show ?case
  proof (cases "moves E c p e")
    case True
    then have "L p e" using link [OF pe] by simp
    with Cons True show ?thesis by (auto simp: set_insert_pivot)
  next
    case False
    then have "L e p" using link [OF pe] by simp
    moreover have "\<forall>y\<in>set earlier. L y p"
    proof
      fix y assume y: "y \<in> set earlier"
      with Cons.prems have "L y e" "y \<in> S" by auto
      with \<open>L e p\<close> pe show "L y p" by (blast intro: tr)
    qed
    ultimately show ?thesis using Cons.prems False by simp
  qed
qed

lemma sorted_wrt_foldl_insert_pivot:
  assumes tr: "\<And>a b d. a \<in> S \<Longrightarrow> b \<in> S \<Longrightarrow> d \<in> S \<Longrightarrow> L a b \<Longrightarrow> L b d \<Longrightarrow> L a d"
    and link: "\<And>p e. p \<in> S \<Longrightarrow> e \<in> S \<Longrightarrow> p \<noteq> e \<Longrightarrow> (if moves E c p e then L p e else L e p)"
  shows "set acc \<union> set xs \<subseteq> S \<Longrightarrow> distinct (acc @ xs) \<Longrightarrow> sorted_wrt (\<lambda>x y. L y x) acc \<Longrightarrow>
    sorted_wrt (\<lambda>x y. L y x)
      (foldl (\<lambda>sorted_part pivot. insert_pivot E c pivot sorted_part) acc xs)"
proof (induction xs arbitrary: acc)
  case Nil
  then show ?case by simp
next
  case (Cons x xs)
  have "sorted_wrt (\<lambda>x y. L y x) (insert_pivot E c x acc)"
    using Cons.prems by (intro sorted_wrt_insert_pivot [where S = S and L = L, OF tr link]) auto
  moreover have "set (insert_pivot E c x acc) \<union> set xs \<subseteq> S"
    using Cons.prems by (auto simp: set_insert_pivot)
  moreover have "distinct (insert_pivot E c x acc @ xs)"
    using Cons.prems by (auto simp: distinct_insert_pivot set_insert_pivot)
  ultimately show ?case using Cons.IH [of "insert_pivot E c x acc"] by simp
qed

lemma sorted_wrt_array_sort:
  assumes tr: "\<And>a b d. a \<in> set xs \<Longrightarrow> b \<in> set xs \<Longrightarrow> d \<in> set xs \<Longrightarrow> L a b \<Longrightarrow> L b d \<Longrightarrow> L a d"
    and link: "\<And>p e. p \<in> set xs \<Longrightarrow> e \<in> set xs \<Longrightarrow> p \<noteq> e \<Longrightarrow>
      (if moves E c p e then L p e else L e p)"
    and dist: "distinct xs"
  shows "sorted_wrt L (array_sort E c xs)"
proof -
  have "sorted_wrt (\<lambda>x y. L y x)
      (foldl (\<lambda>sorted_part pivot. insert_pivot E c pivot sorted_part) [] xs)"
    using dist
    by (intro sorted_wrt_foldl_insert_pivot [where S = "set xs" and L = L, OF tr link]) auto
  then show ?thesis by (simp add: array_sort_def sorted_wrt_rev)
qed

text \<open>Only one arrangement of a set is sorted by an asymmetric relation.\<close>

lemma sorted_wrt_unique:
  assumes asym: "\<And>a b. L a b \<Longrightarrow> \<not> L b a"
  shows "sorted_wrt L ys \<Longrightarrow> sorted_wrt L zs \<Longrightarrow> set ys = set zs \<Longrightarrow> ys = zs"
proof (induction ys arbitrary: zs)
  case Nil
  then show ?case by simp
next
  case (Cons y ys)
  then obtain z zs' where zs: "zs = z # zs'" by (cases zs) auto
  have yz: "y = z"
  proof (rule ccontr)
    assume ne: "y \<noteq> z"
    with Cons.prems(3) zs have "y \<in> set zs'" "z \<in> set ys" by auto
    with Cons.prems(1,2) zs have "L z y" "L y z" by auto
    with asym show False by blast
  qed
  have "y \<notin> set ys" using Cons.prems(1) asym by auto
  moreover have "z \<notin> set zs'" using Cons.prems(2) zs asym by auto
  ultimately have "set ys = set zs'" using Cons.prems(3) zs yz by auto
  with Cons.IH [of zs'] Cons.prems(1,2) zs yz show ?case by simp
qed

text \<open>A symmetric, irreflexive relation holds along a list when it holds between its elements.\<close>

lemma sorted_wrt_symmetric:
  assumes sym: "\<And>a b. R a b \<Longrightarrow> R b a" and irrefl: "\<And>a. \<not> R a a"
  shows "sorted_wrt R xs \<longleftrightarrow> distinct xs \<and> (\<forall>a\<in>set xs. \<forall>b\<in>set xs. a \<noteq> b \<longrightarrow> R a b)"
proof (induction xs)
  case Nil
  then show ?case by simp
next
  case (Cons x xs)
  show ?case
  proof
    assume l: "sorted_wrt R (x # xs)"
    then have hd: "\<forall>y\<in>set xs. R x y" and tl: "sorted_wrt R xs" by simp_all
    from hd irrefl have nin: "x \<notin> set xs" by blast
    from tl Cons have d: "distinct xs" and r: "\<forall>a\<in>set xs. \<forall>b\<in>set xs. a \<noteq> b \<longrightarrow> R a b"
      by simp_all
    have "R a b" if "a \<in> set (x # xs)" "b \<in> set (x # xs)" "a \<noteq> b" for a b
    proof (cases "a = x")
      case True
      with that have "b \<in> set xs" by auto
      with hd True show ?thesis by blast
    next
      case False
      with that have a: "a \<in> set xs" by simp
      show ?thesis
      proof (cases "b = x")
        case True
        from hd a have "R x a" by blast
        then show ?thesis using True by (simp add: sym)
      next
        case False
        with that have "b \<in> set xs" by simp
        with a r that show ?thesis by blast
      qed
    qed
    then have "\<forall>a\<in>set (x # xs). \<forall>b\<in>set (x # xs). a \<noteq> b \<longrightarrow> R a b" by blast
    moreover have "distinct (x # xs)" using nin d by simp
    ultimately show "distinct (x # xs) \<and> (\<forall>a\<in>set (x # xs). \<forall>b\<in>set (x # xs). a \<noteq> b \<longrightarrow> R a b)"
      by (rule conjI [rotated])
  next
    assume r: "distinct (x # xs) \<and> (\<forall>a\<in>set (x # xs). \<forall>b\<in>set (x # xs). a \<noteq> b \<longrightarrow> R a b)"
    then have d: "x \<notin> set xs" "distinct xs" by simp_all
    have all: "R a b" if "a \<in> set (x # xs)" "b \<in> set (x # xs)" "a \<noteq> b" for a b
      using r [THEN conjunct2] that by blast
    have "R x y" if "y \<in> set xs" for y
      using that d(1) by (intro all) auto
    moreover have "\<forall>a\<in>set xs. \<forall>b\<in>set xs. a \<noteq> b \<longrightarrow> R a b"
      by (simp add: all)
    with d(2) Cons have "sorted_wrt R xs" by simp
    ultimately show "sorted_wrt R (x # xs)" by simp
  qed
qed

subsection \<open>The comparator\<close>

lemma number_less_asym: "number_less x y \<Longrightarrow> \<not> number_less y x"
  by (cases x; cases y) auto

lemma js_less_asym: "js_less x y \<Longrightarrow> \<not> js_less y x"
  by (cases x; cases y) (auto dest: number_less_asym)

lemma js_less_irrefl: "\<not> js_less x x"
  using js_less_asym [of x x] by blast


text \<open>
  Between two records that are not tied both engines put the same question: whether the
  pivot belongs before the earlier record.
\<close>

lemma moves_compare:
  assumes "js_less (get_field p orderBy) (get_field e orderBy)
    \<or> js_less (get_field e orderBy) (get_field p orderBy)"
  shows "moves E (compare order orderBy) p e \<longleftrightarrow>
    (if order = ''asc'' then js_less (get_field p orderBy) (get_field e orderBy)
     else js_less (get_field e orderBy) (get_field p orderBy))"
  using assms by (cases E) (auto simp: compare_def js_greater_def dest: js_less_asym)

lemma untied_iff:
  "untied orderBy xs \<longleftrightarrow>
    distinct xs
    \<and> (\<forall>a\<in>set xs. \<forall>b\<in>set xs. a \<noteq> b \<longrightarrow>
          js_less (get_field a orderBy) (get_field b orderBy)
          \<or> js_less (get_field b orderBy) (get_field a orderBy))"
  unfolding untied_def by (rule sorted_wrt_symmetric) (auto simp: js_less_irrefl)

lemma untied_mset:
  assumes "mset ys = mset xs" and "untied orderBy xs"
  shows "untied orderBy ys"
proof -
  have "distinct ys \<longleftrightarrow> distinct xs" using assms(1) by (rule mset_eq_imp_distinct_iff)
  moreover have "set ys = set xs" using assms(1) by (rule mset_eq_setD)
  ultimately show ?thesis using assms(2) by (simp add: untied_iff)
qed


subsection \<open>Sorting twice\<close>







subsection \<open>The result is in order\<close>

text \<open>
  On linearly ordered values the result of either engine is strictly sorted: every record
  is followed only by records that belong after it.
\<close>

lemma linearly_ordered_trans:
  assumes "linearly_ordered orderBy xs" and "a \<in> set xs" "b \<in> set xs" "d \<in> set xs"
    and "js_less (get_field a orderBy) (get_field b orderBy)"
    and "js_less (get_field b orderBy) (get_field d orderBy)"
  shows "js_less (get_field a orderBy) (get_field d orderBy)"
  using assms unfolding linearly_ordered_def by blast

lemma linearly_ordered_total:
  assumes "linearly_ordered orderBy xs" and "a \<in> set xs" "b \<in> set xs" "a \<noteq> b"
  shows "js_less (get_field a orderBy) (get_field b orderBy)
    \<or> js_less (get_field b orderBy) (get_field a orderBy)"
  using assms unfolding linearly_ordered_def untied_iff by blast

lemma strictly_sorted_sortedTransactions:
  assumes lin: "linearly_ordered orderBy xs"
  shows "sorted_wrt
      (\<lambda>a b. if order = ''asc'' then js_less (get_field a orderBy) (get_field b orderBy)
        else js_less (get_field b orderBy) (get_field a orderBy))
      (sortedTransactions E xs order orderBy)"
  unfolding sortedTransactions_def
proof (rule sorted_wrt_array_sort)
  show "distinct xs" using lin unfolding linearly_ordered_def untied_iff by blast
next
  fix a b d assume in_xs: "a \<in> set xs" "b \<in> set xs" "d \<in> set xs"
    and ab: "if order = ''asc'' then js_less (get_field a orderBy) (get_field b orderBy)
      else js_less (get_field b orderBy) (get_field a orderBy)"
    and bd: "if order = ''asc'' then js_less (get_field b orderBy) (get_field d orderBy)
      else js_less (get_field d orderBy) (get_field b orderBy)"
  show "if order = ''asc'' then js_less (get_field a orderBy) (get_field d orderBy)
      else js_less (get_field d orderBy) (get_field a orderBy)"
  proof (cases "order = ''asc''")
    case True
    with ab bd linearly_ordered_trans [OF lin in_xs] show ?thesis by simp
  next
    case False
    with ab bd linearly_ordered_trans [OF lin in_xs(3) in_xs(2) in_xs(1)] show ?thesis by simp
  qed
next
  fix p e assume "p \<in> set xs" "e \<in> set xs" "p \<noteq> e"
  with lin have tot: "js_less (get_field p orderBy) (get_field e orderBy)
    \<or> js_less (get_field e orderBy) (get_field p orderBy)"
    by (rule linearly_ordered_total)
  show "if moves E (compare order orderBy) p e
    then if order = ''asc'' then js_less (get_field p orderBy) (get_field e orderBy)
      else js_less (get_field e orderBy) (get_field p orderBy)
    else if order = ''asc'' then js_less (get_field e orderBy) (get_field p orderBy)
      else js_less (get_field p orderBy) (get_field e orderBy)"
    unfolding moves_compare [OF tot] using tot by (cases "order = ''asc''") auto
qed

lemma in_order_sortedTransactions:
  assumes "linearly_ordered orderBy xs"
  shows "in_order order orderBy (sortedTransactions E xs order orderBy)"
  unfolding in_order_def
  using strictly_sorted_sortedTransactions [OF assms, of order E]
proof (rule sorted_wrt_mono_rel [rotated])
  fix a b
  assume "if order = ''asc'' then js_less (get_field a orderBy) (get_field b orderBy)
    else js_less (get_field b orderBy) (get_field a orderBy)"
  then show "if order = ''asc'' then \<not> js_less (get_field b orderBy) (get_field a orderBy)
    else \<not> js_greater (get_field b orderBy) (get_field a orderBy)"
    by (cases "order = ''asc''") (simp_all add: js_greater_def js_less_asym)
qed

subsection \<open>Without ties the engine has no choice\<close>

text \<open>
  On linearly ordered values only one arrangement of the records is in order, so that
  every procedure that sorts gives what the two engines give.
\<close>

lemma in_order_nth:
  assumes "in_order order orderBy ys" and "i < j" "j < length ys"
  shows "if order = ''asc''
    then \<not> js_less (get_field (ys ! j) orderBy) (get_field (ys ! i) orderBy)
    else \<not> js_less (get_field (ys ! i) orderBy) (get_field (ys ! j) orderBy)"
  using assms unfolding in_order_def sorted_wrt_iff_nth_less js_greater_def
  by (cases "order = ''asc''") simp_all

lemma untied_nth:
  assumes u: "untied orderBy ys" and "i < j" "j < length ys"
  shows "js_less (get_field (ys ! i) orderBy) (get_field (ys ! j) orderBy)
    \<or> js_less (get_field (ys ! j) orderBy) (get_field (ys ! i) orderBy)"
  using assms unfolding untied_def sorted_wrt_iff_nth_less by blast

lemma sortedTransactions_determined:
  assumes lin: "linearly_ordered orderBy xs"
    and m: "mset ys = mset xs" and o: "in_order order orderBy ys"
  shows "ys = sortedTransactions E xs order orderBy"
proof -
  define B where "B = (\<lambda>a b. if order = ''asc''
    then js_less (get_field a orderBy) (get_field b orderBy)
    else js_less (get_field b orderBy) (get_field a orderBy))"
  have "untied orderBy xs" using lin unfolding linearly_ordered_def by blast
  with m have u: "untied orderBy ys" by (rule untied_mset)
  have "B (ys ! i) (ys ! j)" if ij: "i < j" "j < length ys" for i j
  proof (cases "order = ''asc''")
    case True
    with in_order_nth [OF o ij]
    have "\<not> js_less (get_field (ys ! j) orderBy) (get_field (ys ! i) orderBy)" by simp
    with untied_nth [OF u ij]
    have "js_less (get_field (ys ! i) orderBy) (get_field (ys ! j) orderBy)" by blast
    with True show ?thesis by (simp add: B_def)
  next
    case False
    with in_order_nth [OF o ij]
    have "\<not> js_less (get_field (ys ! i) orderBy) (get_field (ys ! j) orderBy)" by simp
    with untied_nth [OF u ij]
    have "js_less (get_field (ys ! j) orderBy) (get_field (ys ! i) orderBy)" by blast
    with False show ?thesis by (simp add: B_def)
  qed
  then have 1: "sorted_wrt B ys" by (simp add: sorted_wrt_iff_nth_less)
  have 2: "sorted_wrt B (sortedTransactions E xs order orderBy)"
    unfolding B_def by (rule strictly_sorted_sortedTransactions [OF lin])
  have "set ys = set xs" using m by (rule mset_eq_setD)
  then have 3: "set ys = set (sortedTransactions E xs order orderBy)"
    by (simp add: sortedTransactions_def set_array_sort)
  have 4: "\<not> B b a" if "B a b" for a b
    using that unfolding B_def by (cases "order = ''asc''") (simp_all add: js_less_asym)
  from 4 1 2 3 show ?thesis by (rule sorted_wrt_unique)
qed

subsection \<open>Values that are linearly ordered\<close>

lemma sorted_wrt_distinct_keys:
  assumes "\<And>a b. a \<in> set xs \<Longrightarrow> b \<in> set xs \<Longrightarrow> g a \<noteq> g b \<Longrightarrow> R a b"
  shows "distinct (map g xs) \<Longrightarrow> sorted_wrt R xs"
  using assms by (induction xs) auto

text \<open>Strings of which no two are equal are linearly ordered.\<close>

lemma strings_linearly_ordered:
  assumes kind: "\<And>t. t \<in> set xs \<Longrightarrow> get_field t orderBy = Str (g t)"
    and dist: "distinct (map g xs)"
  shows "linearly_ordered orderBy xs"
proof -
  have "untied orderBy xs"
    unfolding untied_def using _ dist
  proof (rule sorted_wrt_distinct_keys)
    fix a b assume "a \<in> set xs" "b \<in> set xs" "g a \<noteq> g b"
    then show "js_less (get_field a orderBy) (get_field b orderBy)
      \<or> js_less (get_field b orderBy) (get_field a orderBy)"
      by (auto simp: kind)
  qed
  then show ?thesis by (auto simp: linearly_ordered_def kind)
qed

text \<open>So are finite numbers of which no two have the same value.\<close>

lemma finite_numbers_linearly_ordered:
  assumes kind: "\<And>t. t \<in> set xs \<Longrightarrow> get_field t orderBy = Num (Finite (negative t) (magnitude t))"
    and dist: "distinct (map (\<lambda>t. real_value (negative t) (magnitude t)) xs)"
  shows "linearly_ordered orderBy xs"
proof -
  have "untied orderBy xs"
    unfolding untied_def using _ dist
  proof (rule sorted_wrt_distinct_keys)
    fix a b assume "a \<in> set xs" "b \<in> set xs"
      "real_value (negative a) (magnitude a) \<noteq> real_value (negative b) (magnitude b)"
    then show "js_less (get_field a orderBy) (get_field b orderBy)
      \<or> js_less (get_field b orderBy) (get_field a orderBy)"
      by (auto simp: kind)
  qed
  then show ?thesis by (auto simp: linearly_ordered_def kind)
qed

subsection \<open>Opposite directions\<close>

lemma asc_rev_desc:
  assumes lin: "linearly_ordered orderBy xs"
  shows "sortedTransactions E xs ''asc'' orderBy = rev (sortedTransactions E' xs ''desc'' orderBy)"
proof (rule sorted_wrt_unique)
  show "sorted_wrt (\<lambda>a b. js_less (get_field a orderBy) (get_field b orderBy))
      (sortedTransactions E xs ''asc'' orderBy)"
    using strictly_sorted_sortedTransactions [OF lin, of "''asc''" E] by simp
  show "sorted_wrt (\<lambda>a b. js_less (get_field a orderBy) (get_field b orderBy))
      (rev (sortedTransactions E' xs ''desc'' orderBy))"
    using strictly_sorted_sortedTransactions [OF lin, of "''desc''" E']
    by (simp add: sorted_wrt_rev)
  show "set (sortedTransactions E xs ''asc'' orderBy)
      = set (rev (sortedTransactions E' xs ''desc'' orderBy))"
    by (simp add: sortedTransactions_def set_array_sort)
qed (rule js_less_asym)

text \<open>
  C5, as stated, fails. Give the first sample transaction the amount \<^verbatim>\<open>NaN\<close> and keep the
  second, of amount -15000: the two values differ, but \<^verbatim>\<open><\<close> and \<^verbatim>\<open>>\<close> are both false
  between them, so the comparator answers 1 in both directions and for both orders of the
  arguments. Either engine then returns the same sequence for \<^verbatim>\<open>'asc'\<close> and for \<^verbatim>\<open>'desc'\<close>,
  which is not its own reverse.
\<close>

theorem nan_sorts_alike_both_ways:
  "get_field ((Financial_Transactions ! 0)\<lparr>Amount := Num NaN\<rparr>) ''Amount''
     \<noteq> get_field (Financial_Transactions ! 1) ''Amount''
   \<and> sortedTransactions PivotFirst
       [(Financial_Transactions ! 0)\<lparr>Amount := Num NaN\<rparr>, Financial_Transactions ! 1]
       ''asc'' ''Amount''
     = [(Financial_Transactions ! 0)\<lparr>Amount := Num NaN\<rparr>, Financial_Transactions ! 1]
   \<and> rev (sortedTransactions PivotFirst
       [(Financial_Transactions ! 0)\<lparr>Amount := Num NaN\<rparr>, Financial_Transactions ! 1]
       ''desc'' ''Amount'')
     = [Financial_Transactions ! 1, (Financial_Transactions ! 0)\<lparr>Amount := Num NaN\<rparr>]
   \<and> sortedTransactions EarlierFirst
       [(Financial_Transactions ! 0)\<lparr>Amount := Num NaN\<rparr>, Financial_Transactions ! 1]
       ''asc'' ''Amount''
     = [Financial_Transactions ! 1, (Financial_Transactions ! 0)\<lparr>Amount := Num NaN\<rparr>]
   \<and> rev (sortedTransactions EarlierFirst
       [(Financial_Transactions ! 0)\<lparr>Amount := Num NaN\<rparr>, Financial_Transactions ! 1]
       ''desc'' ''Amount'')
     = [(Financial_Transactions ! 0)\<lparr>Amount := Num NaN\<rparr>, Financial_Transactions ! 1]
   \<and> [(Financial_Transactions ! 0)\<lparr>Amount := Num NaN\<rparr>, Financial_Transactions ! 1]
     \<noteq> [Financial_Transactions ! 1, (Financial_Transactions ! 0)\<lparr>Amount := Num NaN\<rparr>]"
  by (simp add: sortedTransactions_def array_sort_def compare_def get_field_def js_greater_def
      Financial_Transactions_def number_of_integer)

text \<open>
  Being untied is not enough for that: \<^verbatim>\<open>"10" < "9"\<close> as strings, \<^verbatim>\<open>"9" < 9.5\<close> and
  \<^verbatim>\<open>9.5 < "10"\<close> as numbers, so that \<^verbatim>\<open><\<close> is not transitive on these three values, and
  the ascending result is not the reverse of the descending one.
\<close>

lemma untied_not_transitive:
  "untied ''Amount''
     [(Financial_Transactions ! 0)\<lparr>Amount := Str ''10''\<rparr>,
      (Financial_Transactions ! 1)\<lparr>Amount := Str ''9''\<rparr>,
      (Financial_Transactions ! 2)\<lparr>Amount := Num (Finite False (19 / 2))\<rparr>]
   \<and> map Id (sortedTransactions PivotFirst
       [(Financial_Transactions ! 0)\<lparr>Amount := Str ''10''\<rparr>,
        (Financial_Transactions ! 1)\<lparr>Amount := Str ''9''\<rparr>,
        (Financial_Transactions ! 2)\<lparr>Amount := Num (Finite False (19 / 2))\<rparr>]
       ''asc'' ''Amount'')
     = [Num (number_of 1), Num (number_of 2), Num (number_of 3)]
   \<and> map Id (rev (sortedTransactions PivotFirst
       [(Financial_Transactions ! 0)\<lparr>Amount := Str ''10''\<rparr>,
        (Financial_Transactions ! 1)\<lparr>Amount := Str ''9''\<rparr>,
        (Financial_Transactions ! 2)\<lparr>Amount := Num (Finite False (19 / 2))\<rparr>]
       ''desc'' ''Amount''))
     = [Num (number_of 3), Num (number_of 1), Num (number_of 2)]"
  by (simp add: untied_def sortedTransactions_def array_sort_def compare_def get_field_def
      js_greater_def Financial_Transactions_def string_to_number_10 string_to_number_9
      real_value_def)

text \<open>
  C5, amended. When the values of the chosen field are linearly ordered by \<^verbatim>\<open><\<close> in the
  sequence (of any two records one has the smaller value, and \<^verbatim>\<open><\<close> is transitive on the
  values that occur), sorting by that field ascending gives exactly the reverse of sorting
  by it descending, in either engine.
\<close>

theorem sort_opposite_directions:
  assumes "linearly_ordered orderBy transactions"
  shows "sortedTransactions engine transactions ''asc'' orderBy
    = rev (sortedTransactions engine transactions ''desc'' orderBy)"
  using assms by (rule asc_rev_desc)

theorem sort_opposite_directions_witness:
  "linearly_ordered ''Amount'' Financial_Transactions
   \<and> sortedTransactions EarlierFirst Financial_Transactions ''asc'' ''Amount''
     = rev (sortedTransactions EarlierFirst Financial_Transactions ''desc'' ''Amount'')
   \<and> sortedTransactions PivotFirst Financial_Transactions ''asc'' ''Amount''
     = rev (sortedTransactions PivotFirst Financial_Transactions ''desc'' ''Amount'')
   \<and> map Title (sortedTransactions PivotFirst Financial_Transactions ''desc'' ''Amount'')
     = [Str ''Q2 Revenue'', Str ''Software Licenses'', Str ''Marketing Campaign'',
        Str ''Office Operations'']"
proof -
  have l: "linearly_ordered ''Amount'' Financial_Transactions"
    by (simp add: linearly_ordered_def untied_def Financial_Transactions_def get_field_def
        number_of_integer real_value_def)
  have "map Title (sortedTransactions PivotFirst Financial_Transactions ''desc'' ''Amount'')
     = [Str ''Q2 Revenue'', Str ''Software Licenses'', Str ''Marketing Campaign'',
        Str ''Office Operations'']"
    by (simp add: sortedTransactions_def array_sort_def compare_def get_field_def js_greater_def
        Financial_Transactions_def number_of_integer real_value_def)
  with l sort_opposite_directions [OF l, of EarlierFirst]
    sort_opposite_directions [OF l, of PivotFirst]
  show ?thesis by simp
qed

subsection \<open>The sample transactions\<close>

text \<open>
  C6. Sorting the four sample transactions by \<^verbatim>\<open>Amount\<close>, ascending, gives the amounts
  -15000, -8500, -3200, 125000, that is Office Operations, Marketing Campaign, Software
  Licenses, Q2 Revenue, in either engine.
\<close>

theorem sample_by_amount_ascending:
  "map Amount (sortedTransactions engine Financial_Transactions ''asc'' ''Amount'')
     = [Num (Finite True 15000), Num (Finite True 8500), Num (Finite True 3200),
        Num (Finite False 125000)]
   \<and> map Title (sortedTransactions engine Financial_Transactions ''asc'' ''Amount'')
     = [Str ''Office Operations'', Str ''Marketing Campaign'', Str ''Software Licenses'',
        Str ''Q2 Revenue'']"
  by (cases engine)
    (simp_all add: sortedTransactions_def array_sort_def compare_def get_field_def
      Financial_Transactions_def number_of_integer real_value_def)

subsection \<open>The caller's array\<close>

text \<open>
  C10. The sort does not modify its input. Started on a well-formed store in which
  \<^verbatim>\<open>transactions\<close> is an array, it returns a reference to a new array, which did not
  exist before and holds the sorted records; the array \<^verbatim>\<open>transactions\<close> holds what it
  held, and so does every other array. This holds in either engine.
\<close>

theorem sort_leaves_input_unchanged:
  assumes wf: "wf_store s" and arr: "arrays s transactions = Some xs"
  shows "\<exists>copy s'. sortedTransactions_ref engine s transactions order orderBy = Some (copy, s')
    \<and> copy \<noteq> transactions
    \<and> arrays s copy = None
    \<and> arrays s' copy = Some (sortedTransactions engine xs order orderBy)
    \<and> arrays s' transactions = Some xs
    \<and> (\<forall>a. a \<noteq> copy \<longrightarrow> arrays s' a = arrays s a)"
proof -
  have lt: "transactions < fresh s" using wf arr by (simp add: wf_store_def)
  have none: "arrays s (fresh s) = None"
    using wf by (auto simp: wf_store_def)
  from lt none arr show ?thesis
    by (simp add: sortedTransactions_ref_def spread_def sort_in_place_def sortedTransactions_def)
qed

theorem sort_leaves_input_unchanged_witness:
  "wf_store \<lparr>arrays = [0 \<mapsto> Financial_Transactions], fresh = 1\<rparr>
   \<and> arrays \<lparr>arrays = [0 \<mapsto> Financial_Transactions], fresh = 1\<rparr> 0 = Some Financial_Transactions
   \<and> (\<exists>copy s'. sortedTransactions_ref EarlierFirst
          \<lparr>arrays = [0 \<mapsto> Financial_Transactions], fresh = 1\<rparr> 0 ''asc'' ''Amount''
          = Some (copy, s')
        \<and> copy \<noteq> 0
        \<and> arrays s' copy
          = Some (sortedTransactions EarlierFirst Financial_Transactions ''asc'' ''Amount'')
        \<and> arrays s' 0 = Some Financial_Transactions)"
proof -
  let ?s = "\<lparr>arrays = [0 \<mapsto> Financial_Transactions], fresh = 1\<rparr>"
  have wf: "wf_store ?s" by (simp add: wf_store_def)
  have arr: "arrays ?s 0 = Some Financial_Transactions" by simp
  from sort_leaves_input_unchanged [OF wf arr, of EarlierFirst "''asc''" "''Amount''"] wf arr
  show ?thesis by blast
qed


section \<open>Results on \<^verbatim>\<open>calculateChange\<close>\<close>

subsection \<open>The two samples\<close>

lemma number_of_100: "number_of 100 = Finite False 100"
  unfolding number_of_def
  using round_to_double_exact [of 6 100 "7036874417766400" False] by simp

lemma number_of_125000: "number_of 125000 = Finite False 125000"
  unfolding number_of_def
  using round_to_double_exact [of 16 125000 "8589934592000000" False] by simp

lemma number_of_110000: "number_of 110000 = Finite False 110000"
  unfolding number_of_def
  using round_to_double_exact [of 16 110000 "7559142440960000" False] by simp

lemma number_of_52000: "number_of 52000 = Finite False 52000"
  unfolding number_of_def
  using round_to_double_exact [of 15 52000 "7146825580544000" False] by simp

lemma number_of_58000: "number_of 58000 = Finite False 58000"
  unfolding number_of_def
  using round_to_double_exact [of 15 58000 "7971459301376000" False] by simp

lemma minus_125000_110000:
  "js_minus (Finite False 125000) (Finite False 110000) = Finite False 15000"
  using round_to_double_exact [of 13 15000 "8246337208320000" False]
  by (simp add: real_value_def)

lemma divide_15000_110000:
  "js_divide (Finite False 15000) (Finite False 110000)
    = Finite False (1228254443828317 / 9007199254740992)"
  using round_to_double_near [of "- 3" "15000 / 110000" "4913017775313268" False]
  by simp

lemma times_100_first:
  "js_times (Finite False (1228254443828317 / 9007199254740992)) (Finite False 100)
    = Finite False (7676590273926981 / 562949953421312)"
  using round_to_double_near [of 3 "1228254443828317 / 9007199254740992 * 100"
      "7676590273926981" False]
  by simp

lemma toFixed_first: "toFixed_1 (Finite False (7676590273926981 / 562949953421312)) = ''13.6''"
  by (simp add: decimal.simps digit_def floor_rat_divide_numeral)

lemma minus_52000_58000:
  "js_minus (Finite False 52000) (Finite False 58000) = Finite True 6000"
  using round_to_double_exact [of 12 6000 "6597069766656000" True]
  by (simp add: real_value_def)

lemma divide_6000_58000:
  "js_divide (Finite True 6000) (Finite False 58000)
    = Finite True (7454233865992545 / 72057594037927936)"
  using round_to_double_near [of "- 4" "6000 / 58000" "7454233865992545" True]
  by simp

lemma times_100_second:
  "js_times (Finite True (7454233865992545 / 72057594037927936)) (Finite False 100)
    = Finite True (1455905051951669 / 140737488355328)"
  using round_to_double_near [of 3 "7454233865992545 / 72057594037927936 * 100"
      "5823620207806676" True]
  by simp

lemma toFixed_second: "toFixed_1 (Finite True (1455905051951669 / 140737488355328)) = ''-10.3''"
  by (simp add: decimal.simps digit_def floor_rat_divide_numeral)

lemma fixed_value_first: "fixed_value ''13.6'' = Some (136 / 10)"
  by (simp add: fixed_value_def digits_value_def real_value_def)

lemma fixed_value_second: "fixed_value ''-10.3'' = Some (- 103 / 10)"
  by (simp add: fixed_value_def digits_value_def real_value_def)

text \<open>
  C3. \<^verbatim>\<open>calculateChange(125000, 110000)\<close> is \<^verbatim>\<open>13.6\<close> and
  \<^verbatim>\<open>calculateChange(52000, 58000)\<close> is \<^verbatim>\<open>-10.3\<close>: the strings returned are
  \<^verbatim>\<open>"13.6"\<close> and \<^verbatim>\<open>"-10.3"\<close>, which denote these numbers.
\<close>

theorem calculateChange_samples:
  "calculateChange (number_of 125000) (number_of 110000) = ''13.6''
   \<and> calculateChange (number_of 52000) (number_of 58000) = ''-10.3''
   \<and> fixed_value (calculateChange (number_of 125000) (number_of 110000)) = Some (136 / 10)
   \<and> fixed_value (calculateChange (number_of 52000) (number_of 58000)) = Some (- 103 / 10)"
proof -
  have 1: "calculateChange (number_of 125000) (number_of 110000) = ''13.6''"
    by (simp only: calculateChange_def number_of_125000 number_of_110000 number_of_100
        minus_125000_110000 divide_15000_110000 times_100_first toFixed_first)
  have 2: "calculateChange (number_of 52000) (number_of 58000) = ''-10.3''"
    by (simp only: calculateChange_def number_of_52000 number_of_58000 number_of_100
        minus_52000_58000 divide_6000_58000 times_100_second toFixed_second)
  show ?thesis by (simp only: 1 2 fixed_value_first fixed_value_second)
qed

subsection \<open>A previous value of zero\<close>

lemma js_divide_by_zero:
  "js_divide x (Finite t 0) = NaN \<or> (\<exists>u. js_divide x (Finite t 0) = Infinity u)"
  by (cases x) auto

lemma toFixed_not_finite:
  assumes "x = NaN \<or> (\<exists>u. x = Infinity u)"
  shows "toFixed_1 (js_times x (number_of 100)) = ''Infinity''
    \<or> toFixed_1 (js_times x (number_of 100)) = ''-Infinity''
    \<or> toFixed_1 (js_times x (number_of 100)) = ''NaN''"
proof -
  from assms consider "x = NaN" | "x = Infinity True" | "x = Infinity False"
    by (metis (full_types))
  then show ?thesis by cases (simp_all add: number_of_100)
qed

text \<open>
  C1. With a previous value of zero, of either sign, \<^verbatim>\<open>calculateChange\<close> does not throw,
  but what it returns is no sentinel: it is the string \<^verbatim>\<open>"Infinity"\<close>,
  \<^verbatim>\<open>"-Infinity"\<close> or \<^verbatim>\<open>"NaN"\<close>, whatever the current value is.
\<close>

theorem calculateChange_previous_zero:
  "calculateChange current (Finite t 0) = ''Infinity''
   \<or> calculateChange current (Finite t 0) = ''-Infinity''
   \<or> calculateChange current (Finite t 0) = ''NaN''"
  unfolding calculateChange_def
  by (rule toFixed_not_finite) (rule js_divide_by_zero)

lemma calculateChange_125000_0:
  "calculateChange (number_of 125000) (number_of 0) = ''Infinity''"
proof -
  have "number_of 0 = Finite False 0" by (simp add: number_of_def)
  moreover have "js_minus (Finite False 125000) (Finite False 0) = Finite False 125000"
    using round_to_double_exact [of 16 125000 "8589934592000000" False]
    by (simp add: real_value_def)
  ultimately show ?thesis
    by (simp add: calculateChange_def number_of_125000 number_of_100)
qed

subsection \<open>Reading the result back\<close>

lemma digit_cases:
  assumes "0 \<le> d" "d < 10"
  shows "d = 0 \<or> d = 1 \<or> d = 2 \<or> d = 3 \<or> d = 4 \<or> d = 5 \<or> d = 6 \<or> d = 7 \<or> d = 8 \<or> d = (9::int)"
  using assms by arith

lemma of_char_digit:
  assumes "0 \<le> d" "d < 10"
  shows "of_char (digit d) = 48 + d"
  using digit_cases [OF assms] by (auto simp: digit_def)

lemma digit_range:
  assumes "0 \<le> d" "d < 10"
  shows "CHR ''0'' \<le> digit d \<and> digit d \<le> CHR ''9''"
  using digit_cases [OF assms] by (auto simp: digit_def less_eq_char_def)

lemma decimal_props:
  "0 \<le> n \<Longrightarrow> decimal n \<noteq> [] \<and> (\<forall>c \<in> set (decimal n). CHR ''0'' \<le> c \<and> c \<le> CHR ''9'')
    \<and> foldl (\<lambda>v c. 10 * v + (of_char c - 48)) 0 (decimal n) = n"
proof (induction n rule: decimal.induct)
  case (1 n)
  show ?case
  proof (cases "n < 10")
    case True
    then have "decimal n = [digit n]" by (simp add: decimal.simps)
    with True "1.prems" show ?thesis
      using of_char_digit [of n] digit_range [of n] by simp
  next
    case False
    then have d: "decimal n = decimal (n div 10) @ [digit (n mod 10)]"
      by (subst decimal.simps) simp
    have "0 \<le> n div 10" using "1.prems" by simp
    with "1.IH" False have IH: "decimal (n div 10) \<noteq> []"
      "\<forall>c \<in> set (decimal (n div 10)). CHR ''0'' \<le> c \<and> c \<le> CHR ''9''"
      "foldl (\<lambda>v c. 10 * v + (of_char c - 48)) 0 (decimal (n div 10)) = n div 10"
      by simp_all
    have m: "0 \<le> n mod 10" "n mod 10 < 10" by simp_all
    show ?thesis
      using IH of_char_digit [OF m] digit_range [OF m] by (simp add: d)
  qed
qed

lemma digits_value_decimal:
  assumes "0 \<le> n"
  shows "digits_value (decimal n) = Some n"
  using decimal_props [OF assms] by (simp add: digits_value_def)

lemma digits_value_leading_zero:
  assumes "digits_value cs = Some n"
  shows "digits_value (CHR ''0'' # cs) = Some n"
  using assms by (simp add: digits_value_def less_eq_char_def split: if_splits)

lemma hd_digit_not_minus:
  assumes "digits_value cs = Some n"
  shows "hd cs \<noteq> CHR ''-''"
proof -
  from assms have "cs \<noteq> []" "\<forall>c \<in> set cs. CHR ''0'' \<le> c"
    by (auto simp: digits_value_def split: if_splits)
  then have "CHR ''0'' \<le> hd cs" by simp
  then show ?thesis by (auto simp: less_eq_char_def)
qed

lemma fixed_value_digits:
  assumes m: "digits_value m = Some n" and len: "2 \<le> length m"
  shows "fixed_value ((if neg then ''-'' else []) @ butlast m @ ''.'' @ [last m])
    = Some (real_value neg (of_int n / 10))"
proof -
  let ?body = "butlast m @ ''.'' @ [last m]"
  from len obtain c1 c2 cs where mc: "m = c1 # c2 # cs"
    by (cases m; cases "tl m") auto
  have ne: "m \<noteq> []" "butlast m \<noteq> []" by (simp_all add: mc)
  have lb: "length ?body = length m + 1" using ne by simp
  have "digits_value (butlast m) \<noteq> None"
    using m ne by (auto simp: digits_value_def in_set_butlastD split: if_splits)
  then obtain n' where "digits_value (butlast m) = Some n'" by blast
  then have hdb: "hd (butlast m) \<noteq> CHR ''-''" by (rule hd_digit_not_minus)
  have hd_body: "hd ?body \<noteq> CHR ''-''" using ne hdb by simp
  have dot: "?body ! (length ?body - 2) = CHR ''.''"
    using ne by (simp add: nth_append)
  have tk: "take (length ?body - 2) ?body @ [last ?body] = m"
    using ne by simp
  have len3: "\<not> length ?body < 3" using len lb by simp
  show ?thesis
  proof (cases neg)
    case True
    then show ?thesis
      using dot tk len3 m by (simp add: fixed_value_def Let_def del: append_butlast_last_id)
  next
    case False
    then show ?thesis
      using dot tk len3 m hd_body by (simp add: fixed_value_def Let_def)
  qed
qed

lemma toFixed_1_value:
  assumes x: "0 \<le> x" "x < 10 ^ 21"
  shows "fixed_value (toFixed_1 (Finite s x))
    = Some (real_value (s \<and> 0 < x) (of_int \<lfloor>x * 10 + 1 / 2\<rfloor> / 10))"
proof -
  define n where "n = \<lfloor>x * 10 + 1 / 2\<rfloor>"
  define m where "m = (if length (decimal n) \<le> 1
    then replicate (2 - length (decimal n)) CHR ''0'' @ decimal n else decimal n)"
  have n0: "0 \<le> n" using x(1) by (simp add: n_def)
  note p = decimal_props [OF n0]
  have dv: "digits_value (decimal n) = Some n" using n0 by (rule digits_value_decimal)
  have "digits_value m = Some n \<and> 2 \<le> length m"
  proof (cases "length (decimal n) \<le> 1")
    case True
    with p have "length (decimal n) = 1" by (cases "decimal n") auto
    then have "m = CHR ''0'' # decimal n" by (simp add: m_def)
    with dv \<open>length (decimal n) = 1\<close> show ?thesis
      by (simp add: digits_value_leading_zero)
  next
    case False
    then show ?thesis using dv by (simp add: m_def)
  qed
  then have "fixed_value ((if s \<and> 0 < x then ''-'' else []) @ butlast m @ ''.'' @ [last m])
    = Some (real_value (s \<and> 0 < x) (of_int n / 10))"
    by (intro fixed_value_digits) simp_all
  moreover have "toFixed_1 (Finite s x)
    = (if s \<and> 0 < x then ''-'' else []) @ butlast m @ ''.'' @ [last m]"
    using x(2) by (simp add: Let_def m_def n_def)
  ultimately show ?thesis by (simp add: n_def)
qed

subsection \<open>Any two finite numbers\<close>

lemma calculateChange_equal:
  assumes "0 < b"
  shows "calculateChange (Finite s b) (Finite s b) = ''0.0''"
  using assms by (simp add: calculateChange_def number_of_100 decimal.simps digit_def)

text \<open>
  If three operations are carried out on doubles, each result is rounded, and the rounded
  difference or product can overflow.
\<close>

lemma number_of_2_54: "number_of 18014398509481984 = Finite False 18014398509481984"
  unfolding number_of_def
  using round_to_double_exact [of 54 18014398509481984 "4503599627370496" False] by simp

lemma number_of_minus_1: "number_of (- 1) = Finite True 1"
  unfolding number_of_def
  using round_to_double_exact [of 0 1 "4503599627370496" True] by simp

lemma minus_2_54:
  "js_minus (Finite False 18014398509481984) (Finite True 1) = Finite False 18014398509481984"
  using round_to_double_near [of 54 18014398509481985 "4503599627370496" False]
  by (simp add: real_value_def)

lemma divide_2_54:
  "js_divide (Finite False 18014398509481984) (Finite True 1) = Finite True 18014398509481984"
  using round_to_double_exact [of 54 18014398509481984 "4503599627370496" True] by simp

lemma times_2_54:
  "js_times (Finite True 18014398509481984) (Finite False 100)
    = Finite True 1801439850948198400"
  using round_to_double_exact [of 60 1801439850948198400 "7036874417766400" True] by simp

lemma toFixed_2_54:
  "toFixed_1 (Finite True 1801439850948198400) = ''-1801439850948198400.0''"
  by (simp add: decimal.simps digit_def floor_rat_divide_numeral)

lemma number_of_2_1023: "number_of (2 ^ 1023) = Finite False (2 ^ 1023)"
  unfolding number_of_def
  using round_to_double_exact [of 1023 "2 ^ 1023" "4503599627370496" False] by simp

lemma number_of_minus_2_1023: "number_of (- (2 ^ 1023)) = Finite True (2 ^ 1023)"
  unfolding number_of_def
  using round_to_double_exact [of 1023 "2 ^ 1023" "4503599627370496" True] by simp

lemma minus_2_1023:
  "js_minus (Finite False (2 ^ 1023)) (Finite True (2 ^ 1023)) = Infinity False"
  using round_to_double_overflow [of "2 ^ 1024" False]
  by (simp add: real_value_def)

text \<open>
  C2, as stated, fails. With \<open>current = 2\<^sup>5\<^sup>4\<close> and \<open>previous = -1\<close> the difference
  \<open>2\<^sup>5\<^sup>4 + 1\<close> is not a double and is rounded to \<open>2\<^sup>5\<^sup>4\<close>: the code returns
  \<^verbatim>\<open>"-1801439850948198400.0"\<close>, while the percent change is exactly
  -1801439850948198500. With \<open>current = 2\<^sup>1\<^sup>0\<^sup>2\<^sup>3\<close> and \<open>previous = -2\<^sup>1\<^sup>0\<^sup>2\<^sup>3\<close> the
  difference overflows: the code returns \<^verbatim>\<open>"-Infinity"\<close>, while the percent change is
  -200.
\<close>

theorem calculateChange_not_exact:
  "calculateChange (number_of 18014398509481984) (number_of (- 1)) = ''-1801439850948198400.0''
   \<and> fixed_value ''-1801439850948198400.0'' = Some (- 1801439850948198400)
   \<and> percentChange 18014398509481984 (- 1) = - 1801439850948198500
   \<and> calculateChange (number_of (2 ^ 1023)) (number_of (- (2 ^ 1023))) = ''-Infinity''
   \<and> percentChange (2 ^ 1023) (- (2 ^ 1023)) = - 200"
proof -
  have 1: "calculateChange (number_of 18014398509481984) (number_of (- 1))
      = ''-1801439850948198400.0''"
    by (simp only: calculateChange_def number_of_2_54 number_of_minus_1 number_of_100
        minus_2_54 divide_2_54 times_2_54 toFixed_2_54)
  have 2: "fixed_value ''-1801439850948198400.0'' = Some (- 1801439850948198400)"
    by (simp add: fixed_value_def digits_value_def real_value_def)
  have 3: "percentChange 18014398509481984 (- 1) = - 1801439850948198500"
    by (simp add: percentChange_def exact_change_def round_to_tenth_def floor_rat_divide_numeral)
  have 4: "calculateChange (number_of (2 ^ 1023)) (number_of (- (2 ^ 1023))) = ''-Infinity''"
    by (simp only: calculateChange_def number_of_2_1023 number_of_minus_2_1023 number_of_100
        minus_2_1023) simp
  have 5: "percentChange (2 ^ 1023) (- (2 ^ 1023)) = - 200"
    by (simp add: percentChange_def exact_change_def round_to_tenth_def floor_rat_divide_numeral)
  from 1 2 3 4 5 show ?thesis by (simp only: simp_thms)
qed


lemma rel_bounds:
  fixes r m u :: rat
  assumes "\<bar>r - m\<bar> \<le> m * u"
  shows "m * (1 - u) \<le> r" and "r \<le> m * (1 + u)"
  using assms by (simp_all add: algebra_simps abs_le_iff)

lemma rel_chain:
  fixes X y z l h u :: rat
  assumes y: "X * l \<le> y" "y \<le> X * h"
    and z: "y * (1 - u) \<le> z" "z \<le> y * (1 + u)"
    and u: "0 \<le> u" "u \<le> 1"
  shows "X * (l * (1 - u)) \<le> z" and "z \<le> X * (h * (1 + u))"
proof -
  have "X * l * (1 - u) \<le> y * (1 - u)" using y(1) u by (intro mult_right_mono) simp_all
  with z(1) show "X * (l * (1 - u)) \<le> z" by (simp add: mult.assoc)
  have "y * (1 + u) \<le> X * h * (1 + u)" using y(2) u by (intro mult_right_mono) simp_all
  with z(2) show "z \<le> X * (h * (1 + u))" by (simp add: mult.assoc)
qed

lemma exact_change_sign:
  assumes b: "0 < b" and D: "real_value s a - real_value t b \<noteq> 0"
  shows "\<bar>exact_change (real_value s a) (real_value t b)\<bar>
      = \<bar>real_value s a - real_value t b\<bar> / b * 100"
    and "exact_change (real_value s a) (real_value t b) < 0
      \<longleftrightarrow> ((real_value s a - real_value t b < 0) \<noteq> t)"
proof -
  have ab: "\<bar>real_value t b\<bar> = b" using b by (simp add: real_value_def)
  show "\<bar>exact_change (real_value s a) (real_value t b)\<bar>
      = \<bar>real_value s a - real_value t b\<bar> / b * 100"
    unfolding exact_change_def by (simp only: abs_mult abs_divide ab)
  define D where "D = real_value s a - real_value t b"
  define p where "p = real_value t b"
  have D0: "D \<noteq> 0" using D by (simp add: D_def)
  have pt: "p < 0 \<longleftrightarrow> t" and p0: "p \<noteq> 0"
    using b by (auto simp: p_def real_value_def)
  have "\<And>z::rat. z * 100 < 0 \<longleftrightarrow> z < 0" by simp
  then have "D / p * 100 < 0 \<longleftrightarrow> D / p < 0" by blast
  also have "\<dots> \<longleftrightarrow> ((D < 0) \<noteq> (p < 0))"
    using D0 p0 by (auto simp: divide_less_0_iff)
  finally have "D / p * 100 < 0 \<longleftrightarrow> ((D < 0) \<noteq> t)" by (simp only: pt)
  then show "exact_change (real_value s a) (real_value t b) < 0
      \<longleftrightarrow> ((real_value s a - real_value t b < 0) \<noteq> t)"
    unfolding exact_change_def by (simp only: D_def p_def)
qed

lemma calculateChange_double:
  assumes b: "0 < b"
    and D1: "2 powi (- 1022) \<le> \<bar>real_value s a - real_value t b\<bar>"
    and D2: "\<bar>real_value s a - real_value t b\<bar> < 2 powi 1023"
    and X1: "2 powi (- 1000) \<le> \<bar>exact_change (real_value s a) (real_value t b)\<bar>"
    and X2: "\<bar>exact_change (real_value s a) (real_value t b)\<bar> < 10 ^ 20"
  shows "\<exists>r. calculateChange (Finite s a) (Finite t b)
        = toFixed_1 (Finite (exact_change (real_value s a) (real_value t b) < 0) r)
    \<and> 0 < r \<and> r < 10 ^ 21
    \<and> \<bar>r - \<bar>exact_change (real_value s a) (real_value t b)\<bar>\<bar>
        \<le> \<bar>exact_change (real_value s a) (real_value t b)\<bar> * 2 powi (- 51)"
proof -
  define D where "D = real_value s a - real_value t b"
  define x where "x = exact_change (real_value s a) (real_value t b)"
  define X where "X = \<bar>x\<bar>"
  define u :: rat where "u = 2 powi (- 53)"
  define sg where "sg = ((D < 0) \<noteq> t)"
  have u_val: "u = 1 / 9007199254740992" by (simp add: u_def)
  have u01: "0 \<le> u" "u \<le> 1" by (simp_all add: u_val)
  have "(0::rat) < 2 powi (- 1022)" by (rule zero_less_power_int) simp
  with D1 have D0: "D \<noteq> 0" and Dpos: "0 < \<bar>D\<bar>" by (auto simp: D_def)
  have Xeq: "X = \<bar>D\<bar> / b * 100"
    unfolding X_def x_def D_def using D0 by (intro exact_change_sign(1) [OF b]) (simp add: D_def)
  have xneg: "x < 0 \<longleftrightarrow> sg"
    unfolding x_def D_def sg_def using D0 by (intro exact_change_sign(2) [OF b]) (simp add: D_def)
  have X0: "0 < X" using Dpos b by (simp add: Xeq)
  have Xlo: "2 powi (- 1000) \<le> X" and Xhi: "X < 10 ^ 20"
    using X1 X2 by (simp_all add: X_def x_def)
  \<comment> \<open>the difference\<close>
  have m1: "js_minus (Finite s a) (Finite t b) = round_to_double (D < 0) \<bar>D\<bar>"
    using D0 by (simp add: D_def Let_def)
  obtain d where d: "round_to_double (D < 0) \<bar>D\<bar> = Finite (D < 0) d"
    and derr: "\<bar>d - \<bar>D\<bar>\<bar> \<le> \<bar>D\<bar> * u"
    using round_to_double_normal [of "\<bar>D\<bar>" "D < 0"] D1 D2 unfolding D_def u_def by blast
  note db = rel_bounds [OF derr]
  \<comment> \<open>the quotient\<close>
  define Y where "Y = \<bar>D\<bar> / b"
  have Y0: "0 < Y" using Dpos b by (simp add: Y_def)
  have XY: "X = Y * 100" by (simp add: Xeq Y_def)
  have "\<bar>D\<bar> * (1 - u) / b \<le> d / b" "d / b \<le> \<bar>D\<bar> * (1 + u) / b"
    using db b by (simp_all add: divide_right_mono)
  then have yb: "Y * (1 - u) \<le> d / b" "d / b \<le> Y * (1 + u)"
    by (simp_all add: Y_def)
  have dpos: "0 < d / b"
  proof -
    have "0 < Y * (1 - u)" using Y0 by (simp add: u_val)
    with yb(1) show ?thesis by linarith
  qed
  then have d0: "d \<noteq> 0" by auto
  have half: "Y / 2 \<le> d / b"
  proof -
    have "Y * (1 / 2) \<le> Y * (1 - u)" using Y0 by (intro mult_left_mono) (simp_all add: u_val)
    with yb(1) show ?thesis by linarith
  qed
  have twice: "d / b \<le> Y * 2"
  proof -
    have "Y * (1 + u) \<le> Y * 2" using Y0 by (intro mult_left_mono) (simp_all add: u_val)
    with yb(2) show ?thesis by linarith
  qed
  have q_lo: "2 powi (- 1022) \<le> d / b"
  proof -
    have "(2::rat) powi (- 1022) \<le> 2 powi (- 1000) / 200" by simp
    also have "\<dots> \<le> X / 200" using Xlo by simp
    also have "\<dots> = Y / 2" by (simp add: XY)
    finally show ?thesis using half by linarith
  qed
  have q_hi: "d / b < 2 powi 1023"
  proof -
    have "d / b \<le> X / 50" using twice by (simp add: XY)
    also have "\<dots> < 10 ^ 20 / 50" using Xhi by simp
    also have "\<dots> \<le> 2 powi 1023" by simp
    finally show ?thesis .
  qed
  have m2: "js_divide (Finite (D < 0) d) (Finite t b) = round_to_double sg (d / b)"
    using b d0 by (simp add: sg_def)
  obtain q where q: "round_to_double sg (d / b) = Finite sg q"
    and qerr: "\<bar>q - d / b\<bar> \<le> d / b * u"
    using round_to_double_normal [OF q_lo q_hi, of sg] unfolding u_def by blast
  note qb0 = rel_bounds [OF qerr]
  have yb1: "Y * 1 \<le> Y" "Y \<le> Y * 1" by simp_all
  note db1 = rel_chain [OF yb1 _ _ u01, of "d / b"]
  have qb: "Y * ((1 - u) * (1 - u)) \<le> q" "q \<le> Y * ((1 + u) * (1 + u))"
    using rel_chain [OF _ _ qb0 u01, of Y "1 - u" "1 + u"] yb by simp_all
  have qpos: "0 < q"
  proof -
    have "0 < Y * ((1 - u) * (1 - u))" using Y0 by (simp add: u_val)
    with qb(1) show ?thesis by linarith
  qed
  \<comment> \<open>the product\<close>
  have pb: "X * ((1 - u) * (1 - u)) \<le> q * 100" "q * 100 \<le> X * ((1 + u) * (1 + u))"
    using qb by (simp_all add: XY)
  have p_lo: "2 powi (- 1022) \<le> q * 100"
  proof -
    have "(2::rat) powi (- 1022) \<le> 2 powi (- 1000) / 4" by simp
    also have "\<dots> \<le> X / 4" using Xlo by simp
    also have "\<dots> = X * (1 / 4)" by simp
    also have "\<dots> \<le> X * ((1 - u) * (1 - u))"
      using X0 by (intro mult_left_mono) (simp_all add: u_val)
    finally show ?thesis using pb(1) by linarith
  qed
  have p_hi: "q * 100 < 2 powi 1023"
  proof -
    have "X * ((1 + u) * (1 + u)) \<le> X * 4"
      using X0 by (intro mult_left_mono) (simp_all add: u_val)
    with pb(2) have "q * 100 \<le> X * 4" by linarith
    also have "\<dots> < 10 ^ 20 * 4" using Xhi by simp
    also have "\<dots> \<le> 2 powi 1023" by simp
    finally show ?thesis .
  qed
  have m3: "js_times (Finite sg q) (number_of 100) = round_to_double sg (q * 100)"
    using qpos by (simp add: number_of_100)
  obtain r where r: "round_to_double sg (q * 100) = Finite sg r"
    and rerr: "\<bar>r - q * 100\<bar> \<le> q * 100 * u"
    using round_to_double_normal [OF p_lo p_hi, of sg] unfolding u_def by blast
  note rb0 = rel_bounds [OF rerr]
  have rb: "X * ((1 - u) * (1 - u) * (1 - u)) \<le> r" "r \<le> X * ((1 + u) * (1 + u) * (1 + u))"
    using rel_chain [OF pb rb0 u01] by simp_all
  have c_lo: "1 - 4 * u \<le> (1 - u) * (1 - u) * (1 - u)"
    and c_hi: "(1 + u) * (1 + u) * (1 + u) \<le> 1 + 4 * u"
    by (simp_all add: u_val)
  have "X * (1 - 4 * u) \<le> X * ((1 - u) * (1 - u) * (1 - u))"
    using X0 c_lo by (intro mult_left_mono) simp_all
  with rb(1) have r_lo: "X - X * (4 * u) \<le> r" by (simp add: algebra_simps)
  have "X * ((1 + u) * (1 + u) * (1 + u)) \<le> X * (1 + 4 * u)"
    using X0 c_hi by (intro mult_left_mono) simp_all
  with rb(2) have r_hi: "r \<le> X + X * (4 * u)" by (simp add: algebra_simps)
  have u4: "4 * u = 2 powi (- 51)" by (simp add: u_val)
  have "\<bar>r - X\<bar> \<le> X * (4 * u)" using r_lo r_hi by linarith
  then have rX: "\<bar>r - X\<bar> \<le> X * 2 powi (- 51)" by (simp only: u4)
  have rpos: "0 < r"
  proof -
    have "0 < X * (1 - 4 * u)" using X0 by (simp add: u_val)
    then show ?thesis using r_lo by (simp add: algebra_simps)
  qed
  have r21: "r < 10 ^ 21"
  proof -
    have "X * (4 * u) \<le> X * 1" using X0 by (intro mult_left_mono) (simp_all add: u_val)
    with r_hi have "r \<le> X + X" by simp
    also have "\<dots> < 10 ^ 20 + 10 ^ 20" using Xhi by linarith
    also have "\<dots> \<le> 10 ^ 21" by simp
    finally show ?thesis .
  qed
  have cc: "calculateChange (Finite s a) (Finite t b) = toFixed_1 (Finite sg r)"
    by (simp only: calculateChange_def m1 d m2 q m3 r)
  have "sg = (x < 0)" using xneg by simp
  with cc rpos r21 rX show ?thesis unfolding x_def [symmetric] X_def [symmetric] by blast
qed


text \<open>
  C2, amended. Let the inputs be finite, the previous value not zero, the difference
  \<open>current - previous\<close> of a magnitude in the normal range of doubles, from \<open>2\<^sup>-\<^sup>1\<^sup>0\<^sup>2\<^sup>2\<close>
  to \<open>2\<^sup>1\<^sup>0\<^sup>2\<^sup>3\<close>, and the exact percent change
  \<open>x = (current - previous) / previous * 100\<close> of a magnitude from \<open>2\<^sup>-\<^sup>1\<^sup>0\<^sup>0\<^sup>0\<close> to
  \<open>10\<^sup>2\<^sup>0\<close>. Then \<^verbatim>\<open>calculateChange\<close> returns a string in fixed notation with one
  decimal place, and the number \<open>r\<close> it denotes is \<open>x\<close> rounded to one decimal place up to
  the rounding of the three operations: \<open>|r - x| \<le> 0.05 + |x| \<times> 2\<^sup>-\<^sup>5\<^sup>1\<close>. It is exactly
  \<open>x\<close> rounded to one decimal place unless \<open>x\<close> lies within \<open>|x| \<times> 2\<^sup>-\<^sup>5\<^sup>1\<close> of the
  midpoint of two neighbouring numbers with one decimal place.
\<close>

theorem calculateChange_close:
  assumes b: "0 < b"
    and D1: "2 powi (- 1022) \<le> \<bar>real_value s a - real_value t b\<bar>"
    and D2: "\<bar>real_value s a - real_value t b\<bar> < 2 powi 1023"
    and X1: "2 powi (- 1000) \<le> \<bar>exact_change (real_value s a) (real_value t b)\<bar>"
    and X2: "\<bar>exact_change (real_value s a) (real_value t b)\<bar> < 10 ^ 20"
  shows "\<exists>r. fixed_value (calculateChange (Finite s a) (Finite t b)) = Some r
    \<and> \<bar>r - exact_change (real_value s a) (real_value t b)\<bar>
        \<le> 1 / 20 + \<bar>exact_change (real_value s a) (real_value t b)\<bar> * 2 powi (- 51)
    \<and> (\<bar>exact_change (real_value s a) (real_value t b)\<bar> * 10 * 2 powi (- 51)
          < frac (\<bar>exact_change (real_value s a) (real_value t b)\<bar> * 10 + 1 / 2)
        \<and> frac (\<bar>exact_change (real_value s a) (real_value t b)\<bar> * 10 + 1 / 2)
          < 1 - \<bar>exact_change (real_value s a) (real_value t b)\<bar> * 10 * 2 powi (- 51)
        \<longrightarrow> r = percentChange (real_value s a) (real_value t b))"
proof -
  define x where "x = exact_change (real_value s a) (real_value t b)"
  define X where "X = \<bar>x\<bar>"
  define sg where "sg = (x < 0)"
  obtain r where cc: "calculateChange (Finite s a) (Finite t b) = toFixed_1 (Finite sg r)"
    and rpos: "0 < r" and r21: "r < 10 ^ 21" and rX: "\<bar>r - X\<bar> \<le> X * 2 powi (- 51)"
    using calculateChange_double [OF b D1 D2 X1 X2] unfolding x_def X_def sg_def by blast
  define n where "n = \<lfloor>r * 10 + 1 / 2\<rfloor>"
  have fv: "fixed_value (calculateChange (Finite s a) (Finite t b))
      = Some (real_value sg (of_int n / 10))"
    using toFixed_1_value [of r sg] rpos r21 by (simp add: n_def cc)
  have nr: "\<bar>of_int n / 10 - r\<bar> \<le> 1 / 20"
  proof -
    have "of_int n \<le> r * 10 + 1 / 2" "r * 10 + 1 / 2 < of_int n + 1"
      unfolding n_def by linarith+
    then show ?thesis by linarith
  qed
  have xX: "x = real_value sg X"
    by (auto simp: X_def sg_def real_value_def)
  have "\<bar>real_value sg (of_int n / 10) - x\<bar> = \<bar>of_int n / 10 - X\<bar>"
    unfolding xX by (simp add: real_value_def abs_minus_commute)
  also have "\<dots> \<le> \<bar>of_int n / 10 - r\<bar> + \<bar>r - X\<bar>" by simp
  also have "\<dots> \<le> 1 / 20 + X * 2 powi (- 51)" using nr rX by linarith
  finally have close: "\<bar>real_value sg (of_int n / 10) - x\<bar> \<le> 1 / 20 + X * 2 powi (- 51)" .
  have exact: "real_value sg (of_int n / 10) = percentChange (real_value s a) (real_value t b)"
    if lo: "X * 10 * 2 powi (- 51) < frac (X * 10 + 1 / 2)"
      and hi: "frac (X * 10 + 1 / 2) < 1 - X * 10 * 2 powi (- 51)"
  proof -
    define N where "N = \<lfloor>X * 10 + 1 / 2\<rfloor>"
    have fr: "frac (X * 10 + 1 / 2) = X * 10 + 1 / 2 - of_int N" by (simp add: frac_def N_def)
    have "\<bar>r * 10 - X * 10\<bar> \<le> X * 10 * 2 powi (- 51)"
    proof -
      have "\<bar>r * 10 - X * 10\<bar> = \<bar>r - X\<bar> * 10" by (simp add: abs_if)
      also have "\<dots> \<le> X * 2 powi (- 51) * 10" using rX by simp
      finally show ?thesis by (simp add: mult.assoc mult.commute)
    qed
    with lo hi have "of_int N \<le> r * 10 + 1 / 2" "r * 10 + 1 / 2 < of_int N + 1"
      unfolding fr by linarith+
    then have nN: "n = N" unfolding n_def by (intro floor_unique)
    have "percentChange (real_value s a) (real_value t b) = round_to_tenth x"
      by (simp only: percentChange_def x_def)
    also have "round_to_tenth x = real_value sg (of_int N / 10)"
    proof (cases "x < 0")
      case True
      then have "X = - x" by (simp add: X_def)
      with True show ?thesis by (simp add: round_to_tenth_def N_def sg_def real_value_def)
    next
      case False
      then have "X = x" by (simp add: X_def)
      with False show ?thesis by (simp add: round_to_tenth_def N_def sg_def real_value_def)
    qed
    finally show ?thesis by (simp only: nN)
  qed
  from fv close exact show ?thesis
    unfolding x_def [symmetric] X_def [symmetric] by blast
qed

theorem calculateChange_close_witness:
  "0 < (110000::rat)
   \<and> 2 powi (- 1022) \<le> \<bar>real_value False 125000 - real_value False 110000\<bar>
   \<and> \<bar>real_value False 125000 - real_value False 110000\<bar> < 2 powi 1023
   \<and> 2 powi (- 1000) \<le> \<bar>exact_change (real_value False 125000) (real_value False 110000)\<bar>
   \<and> \<bar>exact_change (real_value False 125000) (real_value False 110000)\<bar> < 10 ^ 20
   \<and> \<bar>exact_change (real_value False 125000) (real_value False 110000)\<bar> * 10 * 2 powi (- 51)
       < frac (\<bar>exact_change (real_value False 125000) (real_value False 110000)\<bar> * 10 + 1 / 2)
   \<and> frac (\<bar>exact_change (real_value False 125000) (real_value False 110000)\<bar> * 10 + 1 / 2)
       < 1 - \<bar>exact_change (real_value False 125000) (real_value False 110000)\<bar> * 10
           * 2 powi (- 51)
   \<and> exact_change (real_value False 125000) (real_value False 110000) = 150 / 11
   \<and> percentChange (real_value False 125000) (real_value False 110000) = 136 / 10
   \<and> fixed_value (calculateChange (Finite False 125000) (Finite False 110000))
       = Some (percentChange (real_value False 125000) (real_value False 110000))"
proof -
  have h1: "0 < (110000::rat)" by simp
  have h2: "2 powi (- 1022) \<le> \<bar>real_value False 125000 - real_value False 110000\<bar>"
    by (simp add: real_value_def)
  have h3: "\<bar>real_value False 125000 - real_value False 110000\<bar> < 2 powi 1023"
    by (simp add: real_value_def)
  have e: "exact_change (real_value False 125000) (real_value False 110000) = 150 / 11"
    by (simp add: real_value_def exact_change_def)
  have h4: "2 powi (- 1000) \<le> \<bar>exact_change (real_value False 125000) (real_value False 110000)\<bar>"
    unfolding e by simp
  have h5: "\<bar>exact_change (real_value False 125000) (real_value False 110000)\<bar> < 10 ^ 20"
    unfolding e by simp
  have f: "frac (\<bar>150 / 11\<bar> * 10 + 1 / 2 :: rat) = 19 / 22"
    by (simp add: frac_def floor_rat_divide_numeral)
  have m1: "\<bar>exact_change (real_value False 125000) (real_value False 110000)\<bar> * 10
        * 2 powi (- 51)
      < frac (\<bar>exact_change (real_value False 125000) (real_value False 110000)\<bar> * 10 + 1 / 2)"
    unfolding e f by simp
  have m2: "frac (\<bar>exact_change (real_value False 125000) (real_value False 110000)\<bar> * 10 + 1 / 2)
      < 1 - \<bar>exact_change (real_value False 125000) (real_value False 110000)\<bar> * 10
          * 2 powi (- 51)"
    unfolding e f by simp
  have p: "percentChange (real_value False 125000) (real_value False 110000) = 136 / 10"
    unfolding percentChange_def e by (simp add: round_to_tenth_def floor_rat_divide_numeral)
  from calculateChange_close [OF h1 h2 h3 h4 h5] m1 m2
  have "fixed_value (calculateChange (Finite False 125000) (Finite False 110000))
      = Some (percentChange (real_value False 125000) (real_value False 110000))"
    by blast
  with h1 h2 h3 h4 h5 m1 m2 e p show ?thesis by blast
qed

end
